theory Spec2Isabelle
  imports Main
begin

section \<open>JavaScript values and objects\<close>

text \<open>
  The values that flow through \<^verbatim>\<open>getPageData\<close> and \<^verbatim>\<open>getHelpers\<close>: parsed data files,
  front matter, page constants and helper functions. A helper function is kept as a
  symbolic closure that records the factory which built it and the arguments the factory
  was given (\<^verbatim>\<open>currentPage(name)\<close>, \<^verbatim>\<open>translateHelper(localeData, locale)\<close>, the imported
  \<^verbatim>\<open>repeat\<close>, a function of the template-helpers library).
\<close>

datatype jsval =
    JUndefined
  | JNull
  | JBool bool
  | JNum int
  | JStr string
  | JArr "jsval list"
  | JObj "(string \<times> jsval) list"
  | JFn fn
and fn =
    CurrentPageFn string
  | TranslateFn jsval jsval
  | RepeatFn
  | LibFn string

text \<open>An object is the list of its own properties, in insertion order.\<close>

type_synonym obj = "(string \<times> jsval) list"

text \<open>JavaScript's ToBoolean, used by \<^verbatim>\<open>!x\<close>, \<^verbatim>\<open>x && y\<close>, \<^verbatim>\<open>x || y\<close> and \<^verbatim>\<open>if (x)\<close>.\<close>

fun truthy :: "jsval \<Rightarrow> bool" where
  "truthy JUndefined = False"
| "truthy JNull = False"
| "truthy (JBool b) = b"
| "truthy (JNum n) = (n \<noteq> 0)"
| "truthy (JStr s) = (s \<noteq> [])"
| "truthy (JArr xs) = True"
| "truthy (JObj ob) = True"
| "truthy (JFn g) = True"

text \<open>\<^verbatim>\<open>a && b\<close>: the left operand when it is falsy, the right operand otherwise.\<close>

definition js_and :: "jsval \<Rightarrow> jsval \<Rightarrow> jsval" where
  "js_and a b = (if truthy a then b else a)"

text \<open>\<^verbatim>\<open>Object.keys(ob)\<close>: each own key once, in insertion order.\<close>

definition keys :: "obj \<Rightarrow> string list" where
  "keys ob = remdups (map fst ob)"

text \<open>\<^verbatim>\<open>ob[k]\<close>: reading an own property; an absent key reads as \<^verbatim>\<open>undefined\<close>.\<close>

definition js_get :: "obj \<Rightarrow> string \<Rightarrow> jsval" where
  "js_get ob k = (case map_of ob k of None \<Rightarrow> JUndefined | Some v \<Rightarrow> v)"

text \<open>\<^verbatim>\<open>ob[k] = v\<close>: an existing key keeps its position, a new key is appended.\<close>

fun obj_set :: "string \<Rightarrow> jsval \<Rightarrow> obj \<Rightarrow> obj" where
  "obj_set k v [] = [(k, v)]"
| "obj_set k v ((k', v') # rest) =
     (if k = k' then (k, v) # rest else (k', v') # obj_set k v rest)"

text \<open>
  \<^verbatim>\<open>Object.assign(target, ...sources)\<close>: for every source in turn, for every own key of
  the source, \<^verbatim>\<open>target[key] = source[key]\<close>. A property whose value is \<^verbatim>\<open>undefined\<close> is
  copied like any other.
\<close>

definition assign_from :: "obj \<Rightarrow> obj \<Rightarrow> obj" where
  "assign_from source target = fold (\<lambda>k t. obj_set k (js_get source k) t) (keys source) target"

definition object_assign :: "obj \<Rightarrow> obj list \<Rightarrow> obj" where
  "object_assign target sources = fold assign_from sources target"

section \<open>The deepmerge library\<close>

text \<open>
  Modelled from the spec: \<^verbatim>\<open>deepmerge\<close> is an npm dependency and is not part of the
  sources. The spec says of it that nested structured values combine key by key rather
  than replacing wholesale, and that the second argument (the front matter) wins on scalar
  conflicts and on any key present in both. The library does this as follows: the
  result starts as a copy of the target's properties; then, for each key of the source,
  the source's value is stored, unless the source's value is a mergeable object and the
  target's value under that key is truthy, in which case the two are merged recursively.
  How two arrays (or an array target and an object source) combine is not said by the
  spec and differs between releases of the library, so it is the parameter \<open>am\<close>.
\<close>

fun isMergeableObject :: "jsval \<Rightarrow> bool" where
  "isMergeableObject (JObj ob) = True"
| "isMergeableObject (JArr xs) = True"
| "isMergeableObject v = False"

function deepmerge_value :: "(jsval \<Rightarrow> jsval \<Rightarrow> jsval) \<Rightarrow> jsval \<Rightarrow> jsval \<Rightarrow> jsval"
  and deepmerge :: "(jsval \<Rightarrow> jsval \<Rightarrow> jsval) \<Rightarrow> obj \<Rightarrow> obj \<Rightarrow> obj" where
  "deepmerge_value am target source =
     (case source of
        JObj so \<Rightarrow> (case target of
                      JObj to \<Rightarrow> JObj (deepmerge am to so)
                    | JArr ys \<Rightarrow> am target source
                    | _ \<Rightarrow> source)
      | JArr xs \<Rightarrow> (case target of JArr ys \<Rightarrow> am target source | _ \<Rightarrow> source)
      | _ \<Rightarrow> source)"
| "deepmerge am to so =
     fold (\<lambda>k destination.
             obj_set k (if \<not> isMergeableObject (js_get so k) \<or> \<not> truthy (js_get to k)
                        then js_get so k
                        else deepmerge_value am (js_get to k) (js_get so k)) destination)
          (keys so)
          (assign_from to [])"
  by pat_completeness auto
termination
proof (relation "measure (\<lambda>x. case x of Inl (am, t, s) \<Rightarrow> 2 * size s
                                    | Inr (am, t, so) \<Rightarrow> 2 * size (JObj so) - 1)")
  show "wf (measure (\<lambda>x. case x of Inl (am, t, s) \<Rightarrow> 2 * size s
                                  | Inr (am, t, so) \<Rightarrow> 2 * size (JObj so) - 1))"
    by simp
next
  fix am :: "jsval \<Rightarrow> jsval \<Rightarrow> jsval" and target source :: jsval and so to :: obj
  assume "source = JObj so" "target = JObj to"
  then show "(Inr (am, to, so), Inl (am, target, source))
      \<in> measure (\<lambda>x. case x of Inl (am, t, s) \<Rightarrow> 2 * size s
                              | Inr (am, t, so) \<Rightarrow> 2 * size (JObj so) - 1)"
    by simp
next
  fix am :: "jsval \<Rightarrow> jsval \<Rightarrow> jsval" and to so :: obj and k :: string and destination :: obj
  assume k: "k \<in> set (keys so)"
  have sub: "map_of ob k = Some v \<Longrightarrow> size v < size (JObj ob)" for ob :: obj and v
    by (induction ob) (auto split: if_splits)
  from k have "k \<in> fst ` set so"
    by (simp add: keys_def)
  then obtain v where v: "map_of so k = Some v"
    by (cases "map_of so k") (auto simp: map_of_eq_None_iff)
  from sub [OF v] v have "size (js_get so k) < size (JObj so)"
    by (simp add: js_get_def)
  then show "(Inl (am, js_get to k, js_get so k), Inr (am, to, so))
      \<in> measure (\<lambda>x. case x of Inl (am, t, s) \<Rightarrow> 2 * size s
                              | Inr (am, t, so) \<Rightarrow> 2 * size (JObj so) - 1)"
    by simp
qed

section \<open>The Panini instance, its engine and a page\<close>

text \<open>\<^verbatim>\<open>this.options\<close>, with the defaults' fields of the constructor.\<close>

record options =
  input :: string
  pageLayouts :: jsval
  engine :: string
  transform :: jsval
  builtins :: jsval
  quiet :: jsval
  defaultLocale :: jsval

text \<open>
  \<^verbatim>\<open>this.engine\<close>: the fields that \<^verbatim>\<open>setup\<close>, \<^verbatim>\<open>getPageData\<close> and \<^verbatim>\<open>getHelpers\<close> read or
  write. \<^verbatim>\<open>supports\<close> is the engine's capability test; the spec gives it the type
  \<^verbatim>\<open>supports(capabilityName) -> boolean\<close>.
\<close>

record paniniEngine =
  data :: obj
  collections :: obj
  collectionPages :: obj
  locales :: jsval
  localeData :: jsval
  i18n :: jsval
  supports :: "string \<Rightarrow> bool"

record panini =
  options :: options
  engine :: paniniEngine

text \<open>A Vinyl file: its path and its \<^verbatim>\<open>data\<close> attribute, which may be undefined.\<close>

record vinyl =
  path :: string
  data :: "obj option"

text \<open>
  What the source imports and the sources do not contain: Node's \<^verbatim>\<open>path\<close> functions,
  \<^verbatim>\<open>path-prefix\<close>, the \<^verbatim>\<open>folders\<close> table, \<^verbatim>\<open>getLayout\<close>, the object returned by
  \<^verbatim>\<open>templateHelpers()\<close> and the array strategy of \<^verbatim>\<open>deepmerge\<close>. They are parameters.
\<close>

record deps =
  path_basename :: "string \<Rightarrow> string \<Rightarrow> string"
  path_extname :: "string \<Rightarrow> string"
  path_join :: "string \<Rightarrow> string \<Rightarrow> string"
  pathPrefix :: "string \<Rightarrow> string \<Rightarrow> string"
  folders_pages :: string
  getLayout :: "vinyl \<Rightarrow> obj \<Rightarrow> options \<Rightarrow> jsval"
  templateHelpers :: obj
  arrayMerge :: "jsval \<Rightarrow> jsval \<Rightarrow> jsval"

section \<open>getHelpers\<close>

text \<open>\<^verbatim>\<open>path.basename(file.path, path.extname(file.path))\<close>\<close>

definition pageName :: "deps \<Rightarrow> vinyl \<Rightarrow> string" where
  "pageName d file = path_basename d (vinyl.path file) (path_extname d (vinyl.path file))"

text \<open>\<^verbatim>\<open>file.data && file.data.paniniLocale\<close>\<close>

definition paniniLocale :: "vinyl \<Rightarrow> jsval" where
  "paniniLocale file =
     (case vinyl.data file of None \<Rightarrow> JUndefined | Some fd \<Rightarrow> js_get fd ''paniniLocale'')"

definition getHelpers :: "deps \<Rightarrow> panini \<Rightarrow> vinyl \<Rightarrow> obj" where
  "getHelpers d this file =
     (if \<not> truthy (builtins (panini.options this)) then []
      else
        let coreHelpers = [(''currentPage'', JFn (CurrentPageFn (pageName d file)))];
            coreHelpers =
              (if truthy (js_and (i18n (panini.engine this)) (paniniLocale file))
               then obj_set ''translate''
                      (JFn (TranslateFn (localeData (panini.engine this)) (paniniLocale file)))
                      coreHelpers
               else coreHelpers)
        in if options.engine (panini.options this) = ''handlebars''
           then object_assign [(''repeat'', JFn RepeatFn)] [coreHelpers]
           else object_assign [] [coreHelpers, templateHelpers d])"

section \<open>getPageData\<close>

text \<open>The object literal \<^verbatim>\<open>constants\<close>.\<close>

definition pageConstants :: "deps \<Rightarrow> panini \<Rightarrow> vinyl \<Rightarrow> obj \<Rightarrow> jsval \<Rightarrow> obj" where
  "pageConstants d this file attributes error =
     [(''page'', JStr (pageName d file)),
      (''layout'', js_and (JBool (supports (panini.engine this) ''layouts''))
                          (getLayout d file attributes (panini.options this))),
      (''root'', JStr (pathPrefix d (vinyl.path file)
                         (path_join d (input (panini.options this)) (folders_pages d)))),
      (''locale'', paniniLocale file),
      (''_paniniError'', error)]"

text \<open>\<^verbatim>\<open>Object.assign({}, this.engine.data, file.data || {})\<close>\<close>

definition spreadData :: "panini \<Rightarrow> vinyl \<Rightarrow> obj" where
  "spreadData this file =
     object_assign [] [paniniEngine.data (panini.engine this),
                       (case vinyl.data file of None \<Rightarrow> [] | Some fd \<Rightarrow> fd)]"

text \<open>\<^verbatim>\<open>data = deepmerge(data, attributes)\<close>\<close>

definition mergedData :: "deps \<Rightarrow> panini \<Rightarrow> vinyl \<Rightarrow> obj \<Rightarrow> obj" where
  "mergedData d this file attributes = deepmerge (arrayMerge d) (spreadData this file) attributes"

text \<open>
  \<^verbatim>\<open>getPageData(file, attributes, error)\<close>; an omitted \<^verbatim>\<open>error\<close> argument is
  \<^verbatim>\<open>undefined\<close>.
\<close>

definition getPageData :: "deps \<Rightarrow> panini \<Rightarrow> vinyl \<Rightarrow> obj \<Rightarrow> jsval \<Rightarrow> obj" where
  "getPageData d this file attributes error =
     object_assign (mergedData d this file attributes)
       [pageConstants d this file attributes error, getHelpers d this file]"

section \<open>Loading collections\<close>

text \<open>
  The collections load of \<^verbatim>\<open>setup\<close>: for every child folder of the collections folder, the
  callback below loads the folder's configuration module and its template. What the
  callback consults is a parameter: the folders that the pattern \<^verbatim>\<open>*/\<close> matches, the module
  loader \<^verbatim>\<open>tryRequire\<close> (whose falsy results, for an absent or failing module, are \<open>None\<close>),
  \<^verbatim>\<open>glob\<close> and \<^verbatim>\<open>readFile\<close>, each of which may reject (\<open>Inl\<close>).
\<close>

record loaders =
  collection_dirs :: "string list"
  tryRequire :: "string \<Rightarrow> obj option"
  glob :: "string \<Rightarrow> jsval + string list"
  readFile :: "string \<Rightarrow> jsval + jsval"

text \<open>
  \<^verbatim>\<open>readFile(res[0])\<close> on an empty match list reads \<^verbatim>\<open>readFile(undefined)\<close>, which Node
  refuses with a TypeError.
\<close>

definition invalid_path_error :: jsval where
  "invalid_path_error = JStr ''TypeError [ERR_INVALID_ARG_TYPE]: The \"path\" argument must be of type string''"

text \<open>
  The callback given to \<^verbatim>\<open>mapPaths\<close> for the collections folder, as a transformer of
  \<^verbatim>\<open>this.engine.collections\<close>: no module, nothing happens; otherwise the first match of
  \<^verbatim>\<open>template.*\<close> is read and \<^verbatim>\<open>Object.assign({}, module, {template: res})\<close> is stored under
  the folder's basename. \<^verbatim>\<open>path.basename(filePath)\<close> has no extension argument, which Node
  treats like the empty extension.
\<close>

definition loadCollection :: "deps \<Rightarrow> loaders \<Rightarrow> string \<Rightarrow> obj \<Rightarrow> jsval + obj" where
  "loadCollection d fs filePath engine_collections =
     (case tryRequire fs filePath of
        None \<Rightarrow> Inr engine_collections
      | Some module \<Rightarrow>
          let name = path_basename d filePath [];
              templatePath = path_join d filePath ''template.*''
          in (case glob fs templatePath of
                Inl err \<Rightarrow> Inl err
              | Inr res \<Rightarrow>
                  (case (case res of
                           [] \<Rightarrow> Inl invalid_path_error
                         | first # others \<Rightarrow> readFile fs first) of
                     Inl err \<Rightarrow> Inl err
                   | Inr contents \<Rightarrow>
                       Inr (obj_set name (JObj (object_assign [] [module, [(''template'', contents)]]))
                              engine_collections))))"







section \<open>Objects in the store\<close>

text \<open>
  Whether a method mutates the global data is a question about objects, not values: in
  \<^verbatim>\<open>Object.assign(target, ...)\<close> it matters whether the target is a new object or
  \<^verbatim>\<open>this.engine.data\<close>. Here the objects that the class holds or creates live in a store, an
  address being an index into it, and the methods are written once more, statement by
  statement, on addresses. Values inside an object are kept by value, since none of these
  statements writes below the top level of an object.
\<close>

type_synonym heap = "obj list"

text \<open>An object literal, or any call that returns a new object.\<close>

definition alloc :: "obj \<Rightarrow> heap \<Rightarrow> nat \<times> heap" where
  "alloc ob h = (length h, h @ [ob])"

text \<open>\<^verbatim>\<open>Object.assign(target, ...sources)\<close> on addresses: only the target is written.\<close>

definition heap_assign :: "nat \<Rightarrow> nat list \<Rightarrow> heap \<Rightarrow> heap" where
  "heap_assign target sources h =
     h[target := object_assign (h ! target) (map (\<lambda>source. h ! source) sources)]"

text \<open>
  Modelled from the spec: \<^verbatim>\<open>deepmerge(x, y)\<close> (npm dependency) returns the merge as a new
  object and writes neither argument.
\<close>

definition heap_deepmerge :: "(jsval \<Rightarrow> jsval \<Rightarrow> jsval) \<Rightarrow> nat \<Rightarrow> nat \<Rightarrow> heap \<Rightarrow> nat \<times> heap" where
  "heap_deepmerge am x y h = alloc (deepmerge am (h ! x) (h ! y)) h"

text \<open>
  The instance and a Vinyl file with addresses where they hold objects, and the values
  (\<open>this_in\<close>, \<open>file_in\<close>) they stand for in a given store.
\<close>

record panini_refs =
  this_options :: options
  engine_i18n :: jsval
  engine_supports :: "string \<Rightarrow> bool"
  engine_locales :: jsval
  data_ref :: nat
  localeData_ref :: nat
  collections_ref :: nat
  collectionPages_ref :: nat

record vinyl_ref =
  file_path :: string
  file_data_ref :: "nat option"

definition this_in :: "heap \<Rightarrow> panini_refs \<Rightarrow> panini" where
  "this_in h this =
     \<lparr>panini.options = this_options this,
      engine = \<lparr>paniniEngine.data = h ! data_ref this,
                collections = h ! collections_ref this,
                collectionPages = h ! collectionPages_ref this,
                locales = engine_locales this,
                localeData = JObj (h ! localeData_ref this),
                i18n = engine_i18n this,
                supports = engine_supports this\<rparr>\<rparr>"

definition file_in :: "heap \<Rightarrow> vinyl_ref \<Rightarrow> vinyl" where
  "file_in h file = \<lparr>path = file_path file, data = map_option (\<lambda>a. h ! a) (file_data_ref file)\<rparr>"

text \<open>
  \<^verbatim>\<open>getPageData\<close>, statement by statement: the \<^verbatim>\<open>constants\<close> literal; \<^verbatim>\<open>{}\<close>; \<^verbatim>\<open>file.data || {}\<close>;
  \<^verbatim>\<open>Object.assign({}, this.engine.data, file.data || {})\<close>; \<^verbatim>\<open>deepmerge(data, attributes)\<close>;
  the object \<^verbatim>\<open>getHelpers\<close> returns; \<^verbatim>\<open>Object.assign(data, constants, helpers)\<close>.
\<close>

definition heap_getPageData ::
  "deps \<Rightarrow> panini_refs \<Rightarrow> vinyl_ref \<Rightarrow> nat \<Rightarrow> jsval \<Rightarrow> heap \<Rightarrow> nat \<times> heap" where
  "heap_getPageData d this file attributes error h0 =
     (let (constants, h) = alloc (pageConstants d (this_in h0 this) (file_in h0 file)
                                    (h0 ! attributes) error) h0;
          (target, h) = alloc [] h;
          (file_data, h) = (case file_data_ref file of Some a \<Rightarrow> (a, h) | None \<Rightarrow> alloc [] h);
          h = heap_assign target [data_ref this, file_data] h;
          (data, h) = heap_deepmerge (arrayMerge d) target attributes h;
          (helpers, h) = alloc (getHelpers d (this_in h0 this) (file_in h0 file)) h;
          h = heap_assign data [constants, helpers] h
      in (data, h))"

text \<open>The addresses that \<^verbatim>\<open>getPageData\<close> reads are objects of the store.\<close>

definition refs_in :: "heap \<Rightarrow> panini_refs \<Rightarrow> vinyl_ref \<Rightarrow> nat \<Rightarrow> bool" where
  "refs_in h this file attributes \<longleftrightarrow>
     data_ref this < length h \<and> attributes < length h
     \<and> (case file_data_ref file of None \<Rightarrow> True | Some a \<Rightarrow> a < length h)"

text \<open>
  \<^verbatim>\<open>this.engine.data = {}; this.engine.collections = {}; this.engine.collectionPages = {}\<close>
  at the start of \<^verbatim>\<open>setup\<close>.
\<close>

definition heap_setup_reset :: "panini_refs \<Rightarrow> heap \<Rightarrow> panini_refs \<times> heap" where
  "heap_setup_reset this h =
     (let (d, h) = alloc [] h;
          this = this\<lparr>data_ref := d\<rparr>;
          (c, h) = alloc [] h;
          this = this\<lparr>collections_ref := c\<rparr>;
          (p, h) = alloc [] h;
          this = this\<lparr>collectionPages_ref := p\<rparr>
      in (this, h))"

text \<open>
  What the loads of \<^verbatim>\<open>setup\<close> store as they complete: a data file whose contents were parsed
  (\<^verbatim>\<open>this.engine.data[name] = contents\<close>), the locales object that \<^verbatim>\<open>folderToObject\<close> built
  (\<^verbatim>\<open>this.engine.locales = Object.keys(res); this.engine.localeData = res\<close>), a collection
  folder (the callback \<open>loadCollection\<close>).
\<close>

datatype load = DataFile string jsval | Locales nat | Collection string

fun heap_load :: "deps \<Rightarrow> loaders \<Rightarrow> load \<Rightarrow> panini_refs \<times> heap \<Rightarrow> jsval + panini_refs \<times> heap" where
  "heap_load d fs (DataFile filePath contents) (this, h) =
     Inr (this, h[data_ref this := obj_set (path_basename d filePath (path_extname d filePath)) contents
                                     (h ! data_ref this)])"
| "heap_load d fs (Locales res) (this, h) =
     Inr (this\<lparr>engine_locales := JArr (map JStr (keys (h ! res))), localeData_ref := res\<rparr>, h)"
| "heap_load d fs (Collection filePath) (this, h) =
     (case loadCollection d fs filePath (h ! collections_ref this) of
        Inl err \<Rightarrow> Inl err
      | Inr c \<Rightarrow> Inr (this, h[collections_ref this := c]))"

fun heap_loads :: "deps \<Rightarrow> loaders \<Rightarrow> load list \<Rightarrow> panini_refs \<times> heap \<Rightarrow> jsval + panini_refs \<times> heap" where
  "heap_loads d fs [] s = Inr s"
| "heap_loads d fs (ld # lds) s =
     (case heap_load d fs ld s of Inl err \<Rightarrow> Inl err | Inr s' \<Rightarrow> heap_loads d fs lds s')"

text \<open>
  Modelled from the spec: \<^verbatim>\<open>render\<close> is defined in \<^verbatim>\<open>./render\<close> and the engines, which are not
  part of the sources. The spec says that for every page the page data is assembled and
  the engine's \<^verbatim>\<open>render(templateSource, pageData) -> string\<close> is invoked, and that when a
  page's render fails the error is captured, attached to the page's constants as
  \<^verbatim>\<open>_paniniError\<close> and the page is rendered as an error report.
\<close>

record page =
  page_file :: vinyl_ref
  page_attributes :: nat
  page_template :: string

definition render_page ::
  "deps \<Rightarrow> (string \<Rightarrow> obj \<Rightarrow> jsval + string) \<Rightarrow> panini_refs \<Rightarrow> page \<Rightarrow> heap
     \<Rightarrow> (jsval + string) \<times> heap" where
  "render_page d engine_render this pg h =
     (let (data, h) = heap_getPageData d this (page_file pg) (page_attributes pg) JUndefined h
      in (case engine_render (page_template pg) (h ! data) of
            Inr output \<Rightarrow> (Inr output, h)
          | Inl err \<Rightarrow>
              (let (data, h) = heap_getPageData d this (page_file pg) (page_attributes pg) err h
               in (engine_render (page_template pg) (h ! data), h))))"

fun render ::
  "deps \<Rightarrow> (string \<Rightarrow> obj \<Rightarrow> jsval + string) \<Rightarrow> panini_refs \<Rightarrow> page list \<Rightarrow> heap
     \<Rightarrow> (jsval + string) list \<times> heap" where
  "render d engine_render this [] h = ([], h)"
| "render d engine_render this (pg # pgs) h =
     (let (out, h) = render_page d engine_render this pg h;
          (outs, h) = render d engine_render this pgs h
      in (out # outs, h))"

text \<open>Well-addressed pages and instances.\<close>

definition page_refs_in :: "heap \<Rightarrow> panini_refs \<Rightarrow> page \<Rightarrow> bool" where
  "page_refs_in h this pg \<longleftrightarrow> refs_in h this (page_file pg) (page_attributes pg)"

definition engine_refs_in :: "heap \<Rightarrow> panini_refs \<Rightarrow> bool" where
  "engine_refs_in h this \<longleftrightarrow>
     data_ref this < length h \<and> localeData_ref this < length h
     \<and> collections_ref this < length h \<and> collectionPages_ref this < length h"

section \<open>The build coordinator\<close>

text \<open>
  The control state of the class: the \<^verbatim>\<open>ready\<close> flag, one entry per call of \<^verbatim>\<open>setup\<close>, one
  entry per call of \<^verbatim>\<open>compile\<close> or \<^verbatim>\<open>compileStream\<close>, and the events emitted so far. Promise
  reactions and I/O completions run one at a time, in an order the program does not
  control, so the class is a transition system whose actions are the calls of its methods
  and the reactions they leave behind. What the loads store in \<^verbatim>\<open>this.engine\<close> is not part of
  this state.

  The four members of the \<^verbatim>\<open>Promise.all\<close> of \<^verbatim>\<open>setup\<close>:
\<close>

datatype task = EngineSetup | LoadData | LoadLocales | LoadCollections

definition all_tasks :: "task list" where
  "all_tasks = [EngineSetup, LoadData, LoadLocales, LoadCollections]"

text \<open>
  One call of \<^verbatim>\<open>setup\<close>: \<open>Pending ts\<close> while the loads \<open>ts\<close> have not settled and none has
  rejected (\<open>Pending []\<close>: all resolved, the \<^verbatim>\<open>.then\<close> reaction not yet run);
  \<open>Rejected err ts\<close> once a load has rejected with \<open>err\<close>, which rejects the \<^verbatim>\<open>Promise.all\<close> and
  the promise \<^verbatim>\<open>setup\<close> returned with that first reason, the loads \<open>ts\<close> still running;
  \<open>Done\<close> once the reaction has run; \<open>Threw\<close> when the call itself threw. \<open>rejection\<close> is
  the reason a cycle's promise was rejected with, if it was.
\<close>

datatype cycle = Pending "task list" | Rejected jsval "task list" | Done | Threw

fun rejection :: "cycle \<Rightarrow> jsval option" where
  "rejection (Rejected err ts) = Some err"
| "rejection c = None"

text \<open>The events this class emits.\<close>

datatype event = SetupStart | SetupDone | Parsing | Built nat nat | Error jsval

text \<open>
  One call of \<^verbatim>\<open>compile(dest)\<close> or \<^verbatim>\<open>compileStream()\<close>: where its pages go, and how far its
  promise chain is: \<open>Suspended\<close> (its \<^verbatim>\<open>resolve\<close> is a once-listener of \<^verbatim>\<open>setup_done\<close>),
  \<open>Scheduled\<close> (the promise of \<^verbatim>\<open>onReady\<close> is resolved, the first reaction has not run),
  \<open>Rendering\<close> (the reaction has emitted \<^verbatim>\<open>parsing\<close> and called \<^verbatim>\<open>render\<close>), \<open>Settled\<close>.
\<close>

datatype sink = WriteTo string | PushToStream

datatype chain = Suspended | Scheduled | Rendering | Settled

record coordinator =
  ready :: bool
  cycles :: "cycle list"
  compile_chains :: "(sink \<times> chain) list"
  emitted :: "event list"

text \<open>After the constructor: \<^verbatim>\<open>this.ready = false\<close>, nothing called, nothing emitted.\<close>

definition constructed :: coordinator where
  "constructed = \<lparr>ready = False, cycles = [], compile_chains = [], emitted = []\<rparr>"

definition emit :: "event \<Rightarrow> coordinator \<Rightarrow> coordinator" where
  "emit e s = s\<lparr>emitted := emitted s @ [e]\<rparr>"

text \<open>
  The synchronous part of \<^verbatim>\<open>setup()\<close>: \<^verbatim>\<open>this.ready = false\<close>, \<^verbatim>\<open>this.emit('setup_start')\<close>,
  then the four loads are started and their \<^verbatim>\<open>Promise.all\<close> is pending. When the engine
  has no \<^verbatim>\<open>setup\<close> method, \<^verbatim>\<open>engineSetup\<close> is the detached function \<^verbatim>\<open>Promise.resolve\<close>, and
  calling it without a receiver throws a TypeError before any load is started. The three
  assignments in between, which reset fields of \<^verbatim>\<open>this.engine\<close>, are \<open>heap_setup_reset\<close>.
\<close>

definition setup_call :: "bool \<Rightarrow> coordinator \<Rightarrow> coordinator" where
  "setup_call engine_has_setup s =
     (let s = s\<lparr>ready := False\<rparr>;
          s = emit SetupStart s
      in s\<lparr>cycles := cycles s @ [if engine_has_setup then Pending all_tasks else Threw]\<rparr>)"

text \<open>
  A load of cycle \<open>n\<close> settles: resolved (\<open>None\<close>), it leaves the pending ones; rejected with
  \<open>err\<close>, it rejects the \<^verbatim>\<open>Promise.all\<close>. Once the \<^verbatim>\<open>Promise.all\<close> is rejected, the loads that
  still run settle without effect on it.
\<close>

definition settle :: "nat \<Rightarrow> task \<Rightarrow> jsval option \<Rightarrow> coordinator \<Rightarrow> coordinator option" where
  "settle n t outcome s =
     (if n < length (cycles s)
      then (case cycles s ! n of
              Pending ts \<Rightarrow>
                if t \<in> set ts
                then Some (s\<lparr>cycles := (cycles s)[n := (case outcome of
                                                         None \<Rightarrow> Pending (removeAll t ts)
                                                       | Some err \<Rightarrow> Rejected err (removeAll t ts))]\<rparr>)
                else None
            | Rejected first ts \<Rightarrow>
                if t \<in> set ts
                then Some (s\<lparr>cycles := (cycles s)[n := Rejected first (removeAll t ts)]\<rparr>)
                else None
            | _ \<Rightarrow> None)
      else None)"

text \<open>
  \<^verbatim>\<open>this.emit('setup_done')\<close> calls every once-listener that \<^verbatim>\<open>onReady\<close> registered: each
  suspended chain has its promise resolved.
\<close>

definition resolve_listeners :: "(sink \<times> chain) list \<Rightarrow> (sink \<times> chain) list" where
  "resolve_listeners cs = map (\<lambda>c. (fst c, if snd c = Suspended then Scheduled else snd c)) cs"

text \<open>
  The reaction \<^verbatim>\<open>.then(() => { this.ready = true; this.emit('setup_done'); })\<close> of cycle \<open>n\<close>,
  which runs only once all four loads have resolved.
\<close>

definition setup_then :: "nat \<Rightarrow> coordinator \<Rightarrow> coordinator option" where
  "setup_then n s =
     (if n < length (cycles s) \<and> cycles s ! n = Pending []
      then (let s = s\<lparr>cycles := (cycles s)[n := Done]\<rparr>;
                s = s\<lparr>ready := True\<rparr>;
                s = emit SetupDone s
            in Some (s\<lparr>compile_chains := resolve_listeners (compile_chains s)\<rparr>))
      else None)"

text \<open>
  \<^verbatim>\<open>onReady()\<close>: \<^verbatim>\<open>resolve()\<close> at once when \<^verbatim>\<open>this.ready\<close>, else
  \<^verbatim>\<open>this.once('setup_done', resolve)\<close>. \<^verbatim>\<open>compile\<close> and \<^verbatim>\<open>compileStream\<close> chain their first
  reaction on it.
\<close>

definition onReady :: "coordinator \<Rightarrow> chain" where
  "onReady s = (if ready s then Scheduled else Suspended)"

definition compile :: "string \<Rightarrow> coordinator \<Rightarrow> coordinator" where
  "compile dest s = s\<lparr>compile_chains := compile_chains s @ [(WriteTo dest, onReady s)]\<rparr>"

definition compileStream :: "coordinator \<Rightarrow> coordinator" where
  "compileStream s = s\<lparr>compile_chains := compile_chains s @ [(PushToStream, onReady s)]\<rparr>"

text \<open>
  The first reaction of a compile chain, \<^verbatim>\<open>this.emit('parsing'); return render.call(this)\<close>:
  rendering starts.
\<close>

definition start_render :: "nat \<Rightarrow> coordinator \<Rightarrow> coordinator option" where
  "start_render c s =
     (if c < length (compile_chains s) \<and> snd (compile_chains s ! c) = Scheduled
      then (let s = emit Parsing s
            in Some (s\<lparr>compile_chains := (compile_chains s)[c := (fst (compile_chains s ! c), Rendering)]\<rparr>))
      else None)"

text \<open>
  The end of a compile chain: \<^verbatim>\<open>render\<close> and \<^verbatim>\<open>buildPages\<close> resolved and \<^verbatim>\<open>built\<close> is emitted
  with the two counts, or one of them rejected and the \<^verbatim>\<open>.catch\<close> emits \<^verbatim>\<open>error\<close>.
\<close>

definition finish :: "nat \<Rightarrow> jsval + nat \<times> nat \<Rightarrow> coordinator \<Rightarrow> coordinator option" where
  "finish c outcome s =
     (if c < length (compile_chains s) \<and> snd (compile_chains s ! c) = Rendering
      then (let s = emit (case outcome of
                            Inr (pageCount, errorCount) \<Rightarrow> Built pageCount errorCount
                          | Inl err \<Rightarrow> Error err) s
            in Some (s\<lparr>compile_chains := (compile_chains s)[c := (fst (compile_chains s ! c), Settled)]\<rparr>))
      else None)"

text \<open>
  The actions: a call of a method, the settling of a load, the reaction of a cycle, the
  first reaction of a compile chain, its end. \<open>step\<close> is \<open>None\<close> when the action cannot
  happen in the state; \<open>run\<close> performs a sequence of actions. Their first argument says
  whether the engine has a \<^verbatim>\<open>setup\<close> method.
\<close>

datatype action =
    CallSetup
  | Settle nat task "jsval option"
  | SetupThen nat
  | CallCompile string
  | CallCompileStream
  | StartRender nat
  | Finish nat "jsval + nat \<times> nat"

fun step :: "bool \<Rightarrow> action \<Rightarrow> coordinator \<Rightarrow> coordinator option" where
  "step hs CallSetup s = Some (setup_call hs s)"
| "step hs (Settle n t outcome) s = settle n t outcome s"
| "step hs (SetupThen n) s = setup_then n s"
| "step hs (CallCompile dest) s = Some (compile dest s)"
| "step hs CallCompileStream s = Some (compileStream s)"
| "step hs (StartRender c) s = start_render c s"
| "step hs (Finish c outcome) s = finish c outcome s"

fun run :: "bool \<Rightarrow> action list \<Rightarrow> coordinator \<Rightarrow> coordinator option" where
  "run hs [] s = Some s"
| "run hs (a # as) s = (case step hs a s of None \<Rightarrow> None | Some s' \<Rightarrow> run hs as s')"

text \<open>
  Which loads of a cycle have resolved, read off the actions performed so far, and the
  invariant that ties the pending loads of each cycle to them.
\<close>

definition resolved_in :: "action list \<Rightarrow> nat \<Rightarrow> task \<Rightarrow> bool" where
  "resolved_in as n t \<longleftrightarrow> Settle n t None \<in> set as"

definition barrier_inv :: "action list \<Rightarrow> coordinator \<Rightarrow> bool" where
  "barrier_inv as s \<longleftrightarrow>
     (\<forall>n < length (cycles s).
        (\<forall>ts. cycles s ! n = Pending ts \<longrightarrow> (\<forall>t \<in> set all_tasks. t \<notin> set ts \<longrightarrow> resolved_in as n t))
      \<and> (cycles s ! n = Done \<longrightarrow> (\<forall>t \<in> set all_tasks. resolved_in as n t)))"

section \<open>Example inputs\<close>

text \<open>Concrete collaborators, instances and pages on which the theorems below are evaluated.\<close>

definition example_deps :: deps where
  "example_deps =
     \<lparr>path_basename = (\<lambda>p ext. takeWhile (\<lambda>c. c \<noteq> CHR ''.'') p),
      path_extname = (\<lambda>p. dropWhile (\<lambda>c. c \<noteq> CHR ''.'') p),
      path_join = (\<lambda>a b. a @ ''/'' @ b),
      pathPrefix = (\<lambda>p root. ''''),
      folders_pages = ''pages'',
      getLayout = (\<lambda>file attributes opts.
                     case map_of attributes ''layout'' of None \<Rightarrow> JStr ''default'' | Some l \<Rightarrow> l),
      templateHelpers = [(''upper'', JFn (LibFn ''upper'')), (''keys'', JFn (LibFn ''keys''))],
      arrayMerge = (\<lambda>t s. s)\<rparr>"

definition example_options :: options where
  "example_options =
     \<lparr>input = ''src'', pageLayouts = JObj [], options.engine = ''handlebars'', transform = JObj [],
      builtins = JBool True, quiet = JBool False, defaultLocale = JNull\<rparr>"

definition example_engine :: paniniEngine where
  "example_engine =
     \<lparr>paniniEngine.data = [(''site'', JObj [(''title'', JStr ''X'')]), (''name'', JStr ''global'')],
      collections = [], collectionPages = [],
      locales = JArr [JStr ''en''],
      localeData = JObj [(''en'', JObj [(''hello'', JStr ''Hello'')])],
      i18n = JBool True,
      supports = (\<lambda>feature. feature = ''layouts'')\<rparr>"

definition example_panini :: panini where
  "example_panini = \<lparr>panini.options = example_options, engine = example_engine\<rparr>"

definition example_file :: vinyl where
  "example_file = \<lparr>path = ''index.hbs'', data = None\<rparr>"

definition example_attributes :: obj where
  "example_attributes = [(''site'', JObj [(''author'', JStr ''Y'')]), (''name'', JStr ''page'')]"

definition example_pug :: panini where
  "example_pug = example_panini\<lparr>panini.options := example_options\<lparr>options.engine := ''pug''\<rparr>\<rparr>"

definition example_collision_attributes :: obj where
  "example_collision_attributes =
     [(''keys'', JNum 3), (''page'', JObj [(''a'', JNum 1)]), (''title'', JStr ''Home'')]"

definition example_no_layouts :: panini where
  "example_no_layouts =
     example_panini\<lparr>panini.engine := example_engine\<lparr>supports := (\<lambda>feature. False)\<rparr>\<rparr>"

definition example_localized_file :: vinyl where
  "example_localized_file = \<lparr>path = ''about.hbs'', data = Some [(''paniniLocale'', JStr ''en'')]\<rparr>"

definition example_no_builtins :: panini where
  "example_no_builtins =
     example_panini\<lparr>panini.options := example_options\<lparr>builtins := JBool False\<rparr>\<rparr>"

definition example_loaders :: loaders where
  "example_loaders =
     \<lparr>collection_dirs = [''src/collections/posts'', ''src/collections/drafts'', ''src/collections/team''],
      tryRequire = (\<lambda>p. if p = ''src/collections/posts'' then Some [(''title'', JStr ''Posts'')]
                         else if p = ''src/collections/team'' then Some [(''template'', JStr ''ignored'')]
                         else None),
      glob = (\<lambda>pattern. if pattern = ''src/collections/posts/template.*''
                           then Inr [''src/collections/posts/template.hbs'', ''src/collections/posts/template.md'']
                         else if pattern = ''src/collections/team/template.*''
                           then Inr [''src/collections/team/template.pug'']
                         else Inr []),
      readFile = (\<lambda>p. if p = ''src/collections/posts/template.hbs'' then Inr (JStr ''<h1>post</h1>'')
                       else if p = ''src/collections/team/template.pug'' then Inr (JStr ''h1 team'')
                       else Inl (JStr ''ENOENT''))\<rparr>"


definition example_heap :: heap where
  "example_heap =
     [ [(''site'', JObj [(''title'', JStr ''X'')]), (''name'', JStr ''global'')],
      [(''en'', JObj [(''hello'', JStr ''Hello'')])],
      [(''posts'', JObj [(''template'', JStr ''<h1>post</h1>'')])],
      [],
      [(''site'', JObj [(''author'', JStr ''Y'')]), (''name'', JStr ''page'')]]"

definition example_refs :: panini_refs where
  "example_refs =
     \<lparr>this_options = example_options, engine_i18n = JBool True,
      engine_supports = (\<lambda>feature. feature = ''layouts''), engine_locales = JArr [JStr ''en''],
      data_ref = 0, localeData_ref = 1, collections_ref = 2, collectionPages_ref = 3\<rparr>"

definition example_file_ref :: vinyl_ref where
  "example_file_ref = \<lparr>file_path = ''index.hbs'', file_data_ref = None\<rparr>"

definition example_engine_render :: "string \<Rightarrow> obj \<Rightarrow> jsval + string" where
  "example_engine_render template pageData =
     (case map_of pageData ''name'' of Some (JStr s) \<Rightarrow> Inr (template @ s) | _ \<Rightarrow> Inl (JStr ''no name''))"

definition example_page :: page where
  "example_page = \<lparr>page_file = example_file_ref, page_attributes = 4, page_template = ''Hello ''\<rparr>"

section \<open>Lookup in assembled objects\<close>

lemma map_of_obj_set: "map_of (obj_set k v ob) = (map_of ob)(k \<mapsto> v)"
  by (induction ob) (auto simp: fun_eq_iff)

lemma map_of_fold_obj_set:
  "map_of (fold (\<lambda>k t. obj_set k (g k) t) ks t) k' =
     (if k' \<in> set ks then Some (g k') else map_of t k')"
  by (induction ks arbitrary: t) (auto simp: map_of_obj_set)

lemma in_keys_iff: "k \<in> set (keys ob) \<longleftrightarrow> map_of ob k \<noteq> None"
  by (simp add: keys_def map_of_eq_None_iff)

lemma map_of_assign_from: "map_of (assign_from source target) = map_of target ++ map_of source"
proof
  fix k
  show "map_of (assign_from source target) k = (map_of target ++ map_of source) k"
    by (cases "map_of source k")
       (auto simp: assign_from_def map_of_fold_obj_set in_keys_iff js_get_def map_add_def)
qed



lemma map_of_getPageData:
  "map_of (getPageData d this file attributes error) =
     map_of (mergedData d this file attributes)
       ++ map_of (pageConstants d this file attributes error)
       ++ map_of (getHelpers d this file)"
  by (simp add: getPageData_def object_assign_def map_of_assign_from)

lemma map_of_getHelpers:
  "map_of (getHelpers d this file) =
     (if \<not> truthy (builtins (panini.options this)) then Map.empty
      else
        let core = [''currentPage'' \<mapsto> JFn (CurrentPageFn (pageName d file))]
                    ++ (if truthy (i18n (panini.engine this)) \<and> truthy (paniniLocale file)
                        then [''translate'' \<mapsto> JFn (TranslateFn (localeData (panini.engine this)) (paniniLocale file))]
                        else Map.empty)
        in if options.engine (panini.options this) = ''handlebars''
           then [''repeat'' \<mapsto> JFn RepeatFn] ++ core
           else core ++ map_of (templateHelpers d))"
  by (auto simp: getHelpers_def object_assign_def map_of_assign_from map_of_obj_set Let_def js_and_def fun_eq_iff map_add_def split: option.splits)

lemmas example_defs = example_deps_def example_options_def example_engine_def example_panini_def
  example_file_def example_attributes_def

declare deepmerge.simps [simp del] deepmerge_value.simps [simp del]


section \<open>Page data assembly\<close>


lemmas eval_defs = getPageData_def mergedData_def spreadData_def pageConstants_def getHelpers_def
  object_assign_def assign_from_def keys_def js_get_def js_and_def pageName_def paniniLocale_def
  deepmerge.simps deepmerge_value.simps


text \<open>
  Claim C2. The page constants (\<^verbatim>\<open>page\<close>, \<^verbatim>\<open>layout\<close>, \<^verbatim>\<open>root\<close>, \<^verbatim>\<open>locale\<close>, \<^verbatim>\<open>_paniniError\<close>)
  are spread after the deep-merged data and the helpers after the constants: in the
  returned object a helper's name resolves to the helper; a constant's name that is no
  helper's resolves to the constant itself, whatever the merged data held under it (no
  deep merge at this step); every other key resolves to the merged data.
\<close>

theorem getPageData_constants_then_helpers_override:
  "map fst (pageConstants d this file attributes error)
     = [''page'', ''layout'', ''root'', ''locale'', ''_paniniError'']
   \<and> (\<forall>K h. map_of (getHelpers d this file) K = Some h \<longrightarrow>
          map_of (getPageData d this file attributes error) K = Some h)
   \<and> (\<forall>K c. map_of (getHelpers d this file) K = None
          \<and> map_of (pageConstants d this file attributes error) K = Some c \<longrightarrow>
          map_of (getPageData d this file attributes error) K = Some c)
   \<and> (\<forall>K. map_of (getHelpers d this file) K = None
          \<and> map_of (pageConstants d this file attributes error) K = None \<longrightarrow>
          map_of (getPageData d this file attributes error) K
            = map_of (mergedData d this file attributes) K)"
  by (simp add: map_of_getPageData map_add_def) (simp add: pageConstants_def)

text \<open>
  On a Pug page whose front matter is \<^verbatim>\<open>{keys: 3, page: {a: 1}, title: "Home"}\<close>: \<^verbatim>\<open>keys\<close> is
  the library's helper, \<^verbatim>\<open>page\<close> is the constant \<^verbatim>\<open>"index"\<close>, \<^verbatim>\<open>title\<close> is the front matter's.
\<close>

theorem getPageData_constants_then_helpers_override_witness:
  "map_of (getHelpers example_deps example_pug example_file) ''keys'' = Some (JFn (LibFn ''keys''))
   \<and> map_of (mergedData example_deps example_pug example_file example_collision_attributes) ''keys''
       = Some (JNum 3)
   \<and> map_of (getPageData example_deps example_pug example_file example_collision_attributes JUndefined) ''keys''
       = Some (JFn (LibFn ''keys''))
   \<and> map_of (getHelpers example_deps example_pug example_file) ''page'' = None
   \<and> map_of (pageConstants example_deps example_pug example_file example_collision_attributes JUndefined) ''page''
       = Some (JStr ''index'')
   \<and> map_of (mergedData example_deps example_pug example_file example_collision_attributes) ''page''
       = Some (JObj [(''a'', JNum 1)])
   \<and> map_of (getPageData example_deps example_pug example_file example_collision_attributes JUndefined) ''page''
       = Some (JStr ''index'')
   \<and> map_of (getHelpers example_deps example_pug example_file) ''title'' = None
   \<and> map_of (pageConstants example_deps example_pug example_file example_collision_attributes JUndefined) ''title''
       = None
   \<and> map_of (getPageData example_deps example_pug example_file example_collision_attributes JUndefined) ''title''
       = Some (JStr ''Home'')"
  using getPageData_constants_then_helpers_override
          [of example_deps example_pug example_file example_collision_attributes JUndefined]
  by (simp add: example_defs example_pug_def example_collision_attributes_def eval_defs)

text \<open>
  Claim C3 says that on an engine without layout support the assembled object has no
  \<^verbatim>\<open>layout\<close> value. The source computes \<^verbatim>\<open>this.engine.supports('layouts') && getLayout(...)\<close>,
  which is \<^verbatim>\<open>false\<close> on such an engine, and stores it: the key is there, with the value
  \<^verbatim>\<open>false\<close>.
\<close>

theorem getPageData_layout_absent_counterexample:
  "\<not> supports (panini.engine example_no_layouts) ''layouts''
   \<and> ''layout'' \<in> set (keys (getPageData example_deps example_no_layouts example_file
                                  example_attributes JUndefined))
   \<and> map_of (getPageData example_deps example_no_layouts example_file example_attributes JUndefined)
         ''layout'' = Some (JBool False)"
  by (simp add: example_defs example_no_layouts_def eval_defs)

text \<open>
  Claim C3, amended. On an engine that does not support layouts, layout resolution is
  skipped (the result does not depend on \<^verbatim>\<open>getLayout\<close>) and the \<^verbatim>\<open>layout\<close> constant is the
  value \<^verbatim>\<open>false\<close>; the assembled object holds \<^verbatim>\<open>false\<close> under \<^verbatim>\<open>layout\<close>, whatever the data and
  the front matter say, unless a helper is named \<^verbatim>\<open>layout\<close>.
\<close>

theorem getPageData_layout_false_without_layout_support:
  "\<not> supports (panini.engine this) ''layouts'' \<Longrightarrow>
     map_of (pageConstants d this file attributes error) ''layout'' = Some (JBool False)
   \<and> pageConstants (d\<lparr>getLayout := g\<rparr>) this file attributes error
       = pageConstants d this file attributes error
   \<and> getPageData (d\<lparr>getLayout := g\<rparr>) this file attributes error
       = getPageData d this file attributes error
   \<and> map_of (getPageData d this file attributes error) ''layout''
       = (case map_of (getHelpers d this file) ''layout'' of
            None \<Rightarrow> Some (JBool False)
          | Some h \<Rightarrow> Some h)"
  by (simp add: map_of_getPageData map_add_def split: option.splits)
     (simp add: getPageData_def mergedData_def pageConstants_def getHelpers_def js_and_def pageName_def Let_def)

text \<open>A front matter \<^verbatim>\<open>{layout: "custom"}\<close> on such an engine still assembles \<^verbatim>\<open>layout: false\<close>.\<close>

theorem getPageData_layout_false_without_layout_support_witness:
  "\<not> supports (panini.engine example_no_layouts) ''layouts''
   \<and> map_of (getPageData example_deps example_no_layouts example_file
                [(''layout'', JStr ''custom'')] JUndefined) ''layout'' = Some (JBool False)"
  using getPageData_layout_false_without_layout_support
          [of example_no_layouts example_deps example_file "[(''layout'', JStr ''custom'')]" JUndefined]
  by (simp add: example_defs example_no_layouts_def getHelpers_def object_assign_def assign_from_def
        keys_def js_get_def js_and_def pageName_def paniniLocale_def)

text \<open>
  Claim C4 says that \<^verbatim>\<open>_paniniError\<close> is absent from the assembled object of a page without
  error. The constants literal always has the key, and \<^verbatim>\<open>Object.assign\<close> copies a property
  whose value is \<^verbatim>\<open>undefined\<close>: without an error the key is present and holds \<^verbatim>\<open>undefined\<close>.
\<close>

theorem getPageData_paniniError_absent_counterexample:
  "''_paniniError'' \<in> set (keys (getPageData example_deps example_panini example_file
                                   example_attributes JUndefined))
   \<and> map_of (getPageData example_deps example_panini example_file example_attributes JUndefined)
         ''_paniniError'' = Some JUndefined"
  by (simp add: example_defs eval_defs)

text \<open>
  Claim C4, amended. The assembled object always has the key \<^verbatim>\<open>_paniniError\<close>; the constant
  is exactly the \<^verbatim>\<open>error\<close> argument of \<^verbatim>\<open>getPageData\<close> (\<^verbatim>\<open>undefined\<close> when none was passed, the
  captured error otherwise), and the assembled object holds it unless a helper bears
  that name.
\<close>

theorem getPageData_paniniError_is_error_argument:
  "map_of (pageConstants d this file attributes error) ''_paniniError'' = Some error
   \<and> ''_paniniError'' \<in> set (keys (getPageData d this file attributes error))
   \<and> map_of (getPageData d this file attributes error) ''_paniniError''
       = (case map_of (getHelpers d this file) ''_paniniError'' of
            None \<Rightarrow> Some error
          | Some h \<Rightarrow> Some h)"
  by (simp add: map_of_getPageData in_keys_iff map_add_def split: option.splits)
     (simp add: pageConstants_def)

text \<open>A page assembled with the error \<^verbatim>\<open>"boom"\<close> holds it under \<^verbatim>\<open>_paniniError\<close>.\<close>

theorem getPageData_paniniError_is_error_argument_witness:
  "map_of (getHelpers example_deps example_panini example_file) ''_paniniError'' = None
   \<and> map_of (getPageData example_deps example_panini example_file example_attributes (JStr ''boom''))
         ''_paniniError'' = Some (JStr ''boom'')"
  using getPageData_paniniError_is_error_argument
          [of example_deps example_panini example_file example_attributes "JStr ''boom''"]
  by (simp add: example_defs getHelpers_def object_assign_def assign_from_def keys_def js_get_def
        js_and_def pageName_def paniniLocale_def)

section \<open>Helper provisioning\<close>

text \<open>
  Claim C5. With built-in helpers disabled \<^verbatim>\<open>getHelpers\<close> returns the empty object.
  Otherwise, on Handlebars the result has \<^verbatim>\<open>currentPage\<close> bound to the page's basename,
  \<^verbatim>\<open>repeat\<close>, and \<^verbatim>\<open>translate\<close>, closed over the locale table and the page's locale, if and
  only if the engine's \<^verbatim>\<open>i18n\<close> is truthy and the page has a truthy \<^verbatim>\<open>paniniLocale\<close>, and
  nothing else; on every other engine it has every helper of the template-helpers
  library and, the library defining no helper of these names, \<^verbatim>\<open>currentPage\<close> and
  \<^verbatim>\<open>translate\<close> under the same conditions.
\<close>

theorem getHelpers_by_configuration_engine_and_locale:
  "(\<not> truthy (builtins (panini.options this)) \<longrightarrow> getHelpers d this file = [])
   \<and> (truthy (paniniLocale file) \<longleftrightarrow>
        (\<exists>fd. vinyl.data file = Some fd \<and> truthy (js_get fd ''paniniLocale'')))
   \<and> (truthy (builtins (panini.options this))
        \<and> options.engine (panini.options this) = ''handlebars'' \<longrightarrow>
          map_of (getHelpers d this file) ''currentPage'' = Some (JFn (CurrentPageFn (pageName d file)))
        \<and> map_of (getHelpers d this file) ''repeat'' = Some (JFn RepeatFn)
        \<and> (''translate'' \<in> set (keys (getHelpers d this file)) \<longleftrightarrow>
             truthy (i18n (panini.engine this)) \<and> truthy (paniniLocale file))
        \<and> (truthy (i18n (panini.engine this)) \<and> truthy (paniniLocale file) \<longrightarrow>
             map_of (getHelpers d this file) ''translate''
               = Some (JFn (TranslateFn (localeData (panini.engine this)) (paniniLocale file))))
        \<and> set (keys (getHelpers d this file)) \<subseteq> {''repeat'', ''currentPage'', ''translate''})
   \<and> (truthy (builtins (panini.options this))
        \<and> options.engine (panini.options this) \<noteq> ''handlebars'' \<longrightarrow>
          (\<forall>k v. map_of (templateHelpers d) k = Some v \<longrightarrow>
                 map_of (getHelpers d this file) k = Some v)
        \<and> (''currentPage'' \<notin> set (keys (templateHelpers d)) \<longrightarrow>
             map_of (getHelpers d this file) ''currentPage''
               = Some (JFn (CurrentPageFn (pageName d file))))
        \<and> (''translate'' \<notin> set (keys (templateHelpers d)) \<longrightarrow>
             (''translate'' \<in> set (keys (getHelpers d this file)) \<longleftrightarrow>
                truthy (i18n (panini.engine this)) \<and> truthy (paniniLocale file))
             \<and> (truthy (i18n (panini.engine this)) \<and> truthy (paniniLocale file) \<longrightarrow>
                  map_of (getHelpers d this file) ''translate''
                    = Some (JFn (TranslateFn (localeData (panini.engine this)) (paniniLocale file))))))"
proof (intro conjI impI)
  assume "\<not> truthy (builtins (panini.options this))"
  then show "getHelpers d this file = []"
    by (simp add: getHelpers_def)
next
  show "truthy (paniniLocale file) \<longleftrightarrow>
        (\<exists>fd. vinyl.data file = Some fd \<and> truthy (js_get fd ''paniniLocale''))"
    by (simp add: paniniLocale_def split: option.splits)
next
  assume h: "truthy (builtins (panini.options this))
        \<and> options.engine (panini.options this) = ''handlebars''"
  then show "map_of (getHelpers d this file) ''currentPage'' = Some (JFn (CurrentPageFn (pageName d file)))"
    by (simp add: map_of_getHelpers map_add_def)
  from h show "map_of (getHelpers d this file) ''repeat'' = Some (JFn RepeatFn)"
    by (simp add: map_of_getHelpers map_add_def)
  from h show "''translate'' \<in> set (keys (getHelpers d this file)) \<longleftrightarrow>
             truthy (i18n (panini.engine this)) \<and> truthy (paniniLocale file)"
    by (simp add: in_keys_iff map_of_getHelpers map_add_def)
  from h show "set (keys (getHelpers d this file)) \<subseteq> {''repeat'', ''currentPage'', ''translate''}"
    by (auto simp: in_keys_iff map_of_getHelpers map_add_def split: if_splits)
  assume "truthy (i18n (panini.engine this)) \<and> truthy (paniniLocale file)"
  with h show "map_of (getHelpers d this file) ''translate''
               = Some (JFn (TranslateFn (localeData (panini.engine this)) (paniniLocale file)))"
    by (simp add: map_of_getHelpers map_add_def)
next
  assume h: "truthy (builtins (panini.options this))
        \<and> options.engine (panini.options this) \<noteq> ''handlebars''"
  then show "\<forall>k v. map_of (templateHelpers d) k = Some v \<longrightarrow>
                 map_of (getHelpers d this file) k = Some v"
    by (simp add: map_of_getHelpers map_add_def)
  {
    assume "''currentPage'' \<notin> set (keys (templateHelpers d))"
    with h show "map_of (getHelpers d this file) ''currentPage''
               = Some (JFn (CurrentPageFn (pageName d file)))"
      by (simp add: in_keys_iff map_of_getHelpers map_add_def)
  }
  {
    assume "''translate'' \<notin> set (keys (templateHelpers d))"
    with h show "''translate'' \<in> set (keys (getHelpers d this file)) \<longleftrightarrow>
                truthy (i18n (panini.engine this)) \<and> truthy (paniniLocale file)"
      by (simp add: in_keys_iff map_of_getHelpers map_add_def)
  }
  {
    assume "''translate'' \<notin> set (keys (templateHelpers d))"
       and "truthy (i18n (panini.engine this)) \<and> truthy (paniniLocale file)"
    with h show "map_of (getHelpers d this file) ''translate''
                    = Some (JFn (TranslateFn (localeData (panini.engine this)) (paniniLocale file)))"
      by (simp add: in_keys_iff map_of_getHelpers map_add_def)
  }
qed

text \<open>Built-ins disabled; Handlebars with and without a locale; Pug with a locale.\<close>

theorem getHelpers_by_configuration_engine_and_locale_witness:
  "\<not> truthy (builtins (panini.options example_no_builtins))
   \<and> getHelpers example_deps example_no_builtins example_localized_file = []
   \<and> truthy (builtins (panini.options example_panini))
   \<and> options.engine (panini.options example_panini) = ''handlebars''
   \<and> truthy (i18n (panini.engine example_panini)) \<and> truthy (paniniLocale example_localized_file)
   \<and> getHelpers example_deps example_panini example_localized_file
       = [(''repeat'', JFn RepeatFn),
          (''currentPage'', JFn (CurrentPageFn ''about'')),
          (''translate'', JFn (TranslateFn (JObj [(''en'', JObj [(''hello'', JStr ''Hello'')])])
                                           (JStr ''en'')))]
   \<and> getHelpers example_deps example_panini example_file
       = [(''repeat'', JFn RepeatFn), (''currentPage'', JFn (CurrentPageFn ''index''))]
   \<and> truthy (builtins (panini.options example_pug))
   \<and> options.engine (panini.options example_pug) \<noteq> ''handlebars''
   \<and> ''currentPage'' \<notin> set (keys (templateHelpers example_deps))
   \<and> ''translate'' \<notin> set (keys (templateHelpers example_deps))
   \<and> getHelpers example_deps example_pug example_localized_file
       = [(''currentPage'', JFn (CurrentPageFn ''about'')),
          (''translate'', JFn (TranslateFn (JObj [(''en'', JObj [(''hello'', JStr ''Hello'')])])
                                           (JStr ''en''))),
          (''upper'', JFn (LibFn ''upper'')),
          (''keys'', JFn (LibFn ''keys''))]"
  using getHelpers_by_configuration_engine_and_locale
          [of example_no_builtins example_deps example_localized_file]
        getHelpers_by_configuration_engine_and_locale
          [of example_panini example_deps example_localized_file]
        getHelpers_by_configuration_engine_and_locale
          [of example_pug example_deps example_localized_file]
  by (simp add: example_defs example_pug_def example_no_builtins_def example_localized_file_def
        eval_defs)

section \<open>Collections\<close>











section \<open>Readiness and the setup barrier\<close>

text \<open>Facts about single actions and about runs, on which the three claims below rest.\<close>

lemmas coordinator_defs = setup_call_def settle_def setup_then_def compile_def compileStream_def
  start_render_def finish_def emit_def onReady_def resolve_listeners_def

lemma run_append:
  "run hs (as @ bs) s = (case run hs as s of None \<Rightarrow> None | Some s' \<Rightarrow> run hs bs s')"
  by (induction as arbitrary: s) (auto split: option.splits)

lemma step_ready_persists:
  "step hs a s = Some s' \<Longrightarrow> a \<noteq> CallSetup \<Longrightarrow> ready s \<Longrightarrow> ready s'"
  by (cases a) (auto simp: coordinator_defs Let_def split: if_splits cycle.splits)

lemma run_ready_persists:
  "run hs as s = Some s' \<Longrightarrow> CallSetup \<notin> set as \<Longrightarrow> ready s \<Longrightarrow> ready s'"
proof (induction as arbitrary: s)
  case Nil
  then show ?case by simp
next
  case (Cons a as)
  then obtain s1 where s1: "step hs a s = Some s1" "run hs as s1 = Some s'"
    by (auto split: option.splits)
  from Cons.prems s1 have "ready s1"
    using step_ready_persists [of hs a s s1] by auto
  with Cons s1 show ?case by simp
qed

lemma step_length_chains:
  "step hs a s = Some s' \<Longrightarrow> length (compile_chains s) \<le> length (compile_chains s')"
  by (cases a) (auto simp: coordinator_defs Let_def split: if_splits cycle.splits)

lemma step_releases_suspended:
  assumes "step hs a s = Some s'" "c < length (compile_chains s)" "snd (compile_chains s ! c) = Suspended"
    "snd (compile_chains s' ! c) \<noteq> Suspended"
  shows "(\<exists>n. a = SetupThen n) \<and> snd (compile_chains s' ! c) = Scheduled \<and> ready s'
         \<and> emitted s' = emitted s @ [SetupDone]"
  using assms
  by (cases a) (auto simp: coordinator_defs Let_def nth_append nth_list_update
                     split: if_splits cycle.splits)

lemma setup_then_releases_all:
  assumes "setup_then n s = Some s'" "c < length (compile_chains s)" "snd (compile_chains s ! c) = Suspended"
  shows "snd (compile_chains s' ! c) = Scheduled"
  using assms by (auto simp: coordinator_defs Let_def split: if_splits)

lemma count_list_update:
  "n < length xs \<Longrightarrow> \<not> P (xs ! n) \<Longrightarrow>
     length (filter P (xs[n := y])) = length (filter P xs) + (if P y then 1 else 0)"
proof (induction xs arbitrary: n)
  case Nil
  then show ?case by simp
next
  case (Cons x xs)
  then show ?case by (cases n) auto
qed

lemma step_counts:
  assumes "step hs a s = Some s'"
    and "length (filter (\<lambda>e. e = SetupDone) (emitted s)) = length (filter (\<lambda>c. c = Done) (cycles s))"
    and "length (filter (\<lambda>e. e = SetupStart) (emitted s)) = length (cycles s)"
  shows "length (filter (\<lambda>e. e = SetupDone) (emitted s')) = length (filter (\<lambda>c. c = Done) (cycles s'))
       \<and> length (filter (\<lambda>e. e = SetupStart) (emitted s')) = length (cycles s')"
  using assms
  by (cases a) (auto simp: coordinator_defs Let_def count_list_update split: if_splits cycle.splits sum.splits prod.splits option.splits)

lemma run_snoc:
  "run hs (as @ [a]) s = (case run hs as s of None \<Rightarrow> None | Some s' \<Rightarrow> step hs a s')"
  by (simp add: run_append split: option.splits)

lemma run_counts:
  "run hs as constructed = Some s \<Longrightarrow>
     length (filter (\<lambda>e. e = SetupDone) (emitted s)) = length (filter (\<lambda>c. c = Done) (cycles s))
   \<and> length (filter (\<lambda>e. e = SetupStart) (emitted s)) = length (cycles s)"
proof (induction as arbitrary: s rule: rev_induct)
  case Nil
  then show ?case by (auto simp: constructed_def)
next
  case (snoc a as)
  then obtain s1 where s1: "run hs as constructed = Some s1" "step hs a s1 = Some s"
    by (auto simp: run_snoc split: option.splits)
  from snoc.IH [OF s1(1)] step_counts [OF s1(2)] show ?case by simp
qed

lemma barrier_inv_step:
  assumes "barrier_inv as s" "step hs a s = Some s'"
  shows "barrier_inv (as @ [a]) s'"
proof (cases a)
  case CallSetup
  with assms show ?thesis
    by (auto simp: barrier_inv_def resolved_in_def coordinator_defs Let_def nth_append less_Suc_eq
             split: if_splits)
next
  case (Settle n t outcome)
  with assms show ?thesis
    by (auto simp: barrier_inv_def resolved_in_def coordinator_defs Let_def nth_list_update
             split: if_splits cycle.splits option.splits)
next
  case (SetupThen n)
  with assms show ?thesis
    by (auto simp: barrier_inv_def resolved_in_def coordinator_defs Let_def nth_list_update
             split: if_splits)
next
  case (CallCompile dest)
  with assms show ?thesis
    by (auto simp: barrier_inv_def resolved_in_def coordinator_defs)
next
  case CallCompileStream
  with assms show ?thesis
    by (auto simp: barrier_inv_def resolved_in_def coordinator_defs)
next
  case (StartRender c)
  with assms show ?thesis
    by (auto simp: barrier_inv_def resolved_in_def coordinator_defs Let_def split: if_splits)
next
  case (Finish c outcome)
  with assms show ?thesis
    by (auto simp: barrier_inv_def resolved_in_def coordinator_defs Let_def split: if_splits)
qed

lemma barrier_inv_run:
  "run hs as constructed = Some s \<Longrightarrow> barrier_inv as s"
proof (induction as arbitrary: s rule: rev_induct)
  case Nil
  then show ?case by (auto simp: barrier_inv_def constructed_def)
next
  case (snoc a as)
  then obtain s1 where s1: "run hs as constructed = Some s1" "step hs a s1 = Some s"
    by (auto simp: run_snoc split: option.splits)
  from barrier_inv_step [OF snoc.IH [OF s1(1)] s1(2)] show ?case .
qed

lemma setup_done_after_all_loads:
  assumes "run hs (pre @ SetupThen n # post) constructed = Some s" "t \<in> set all_tasks"
  shows "Settle n t None \<in> set pre"
proof -
  from assms(1) obtain s1 s2 where s1: "run hs pre constructed = Some s1"
    and s2: "setup_then n s1 = Some s2"
    by (auto simp: run_append split: option.splits)
  from s2 have "n < length (cycles s1)" "cycles s1 ! n = Pending []"
    by (auto simp: setup_then_def split: if_splits)
  with barrier_inv_run [OF s1] assms(2) show ?thesis
    by (auto simp: barrier_inv_def resolved_in_def)
qed

lemma run_settles:
  "n < length (cycles s) \<Longrightarrow> cycles s ! n = Pending ps \<Longrightarrow> distinct ts \<Longrightarrow> set ts \<subseteq> set ps \<Longrightarrow>
     run hs (map (\<lambda>t. Settle n t None) ts) s
       = Some (s\<lparr>cycles := (cycles s)[n := Pending (filter (\<lambda>t. t \<notin> set ts) ps)]\<rparr>)"
proof (induction ts arbitrary: s ps)
  case Nil
  then show ?case by (simp add: list_update_same_conv [THEN iffD2])
next
  case (Cons t ts)
  let ?s1 = "s\<lparr>cycles := (cycles s)[n := Pending (removeAll t ps)]\<rparr>"
  from Cons.prems have st: "step hs (Settle n t None) s = Some ?s1"
    by (simp add: settle_def)
  from Cons.prems have "run hs (map (\<lambda>t. Settle n t None) ts) ?s1
       = Some (?s1\<lparr>cycles := (cycles ?s1)[n := Pending (filter (\<lambda>t. t \<notin> set ts) (removeAll t ps))]\<rparr>)"
    by (intro Cons.IH) auto
  moreover have "filter (\<lambda>x. x \<notin> set ts) (removeAll t ps) = filter (\<lambda>x. x \<notin> set (t # ts)) ps"
    by (induction ps) auto
  ultimately show ?case using st by simp
qed

lemma rejected_persists_step:
  "step hs a s = Some s' \<Longrightarrow> n < length (cycles s) \<Longrightarrow> rejection (cycles s ! n) = Some err \<Longrightarrow>
     n < length (cycles s') \<and> rejection (cycles s' ! n) = Some err"
  by (cases a) (auto simp: coordinator_defs Let_def nth_append nth_list_update
                     split: if_splits cycle.splits option.splits)

lemma rejected_persists_run:
  "run hs as s = Some s' \<Longrightarrow> n < length (cycles s) \<Longrightarrow> rejection (cycles s ! n) = Some err \<Longrightarrow>
     n < length (cycles s') \<and> rejection (cycles s' ! n) = Some err"
proof (induction as arbitrary: s)
  case Nil
  then show ?case by simp
next
  case (Cons a as)
  then obtain s1 where s1: "step hs a s = Some s1" "run hs as s1 = Some s'"
    by (auto split: option.splits)
  from rejected_persists_step [OF s1(1) Cons.prems(2,3)] Cons.IH [OF s1(2)] show ?case by simp
qed

lemma suspended_persists_step:
  "step hs a s = Some s' \<Longrightarrow> (\<forall>n. a \<noteq> SetupThen n) \<Longrightarrow> c < length (compile_chains s) \<Longrightarrow>
     snd (compile_chains s ! c) = Suspended \<Longrightarrow>
     c < length (compile_chains s') \<and> snd (compile_chains s' ! c) = Suspended"
  by (cases a) (auto simp: coordinator_defs Let_def nth_append nth_list_update
                     split: if_splits cycle.splits option.splits)

lemma suspended_persists_run:
  "run hs as s = Some s' \<Longrightarrow> (\<forall>n. SetupThen n \<notin> set as) \<Longrightarrow> c < length (compile_chains s) \<Longrightarrow>
     snd (compile_chains s ! c) = Suspended \<Longrightarrow>
     c < length (compile_chains s') \<and> snd (compile_chains s' ! c) = Suspended"
proof (induction as arbitrary: s)
  case Nil
  then show ?case by simp
next
  case (Cons a as)
  then obtain s1 where s1: "step hs a s = Some s1" "run hs as s1 = Some s'"
    by (auto split: option.splits)
  from Cons.prems have "\<forall>n. a \<noteq> SetupThen n" by auto
  from suspended_persists_step [OF s1(1) this Cons.prems(3,4)] Cons.IH [OF s1(2)] Cons.prems(2)
  show ?case by simp
qed

lemma error_only_from_render:
  "step hs a s = Some s' \<Longrightarrow> emitted s' = emitted s @ [Error err] \<Longrightarrow>
     (\<exists>c. a = Finish c (Inl err) \<and> c < length (compile_chains s) \<and> snd (compile_chains s ! c) = Rendering)"
  by (cases a) (auto simp: coordinator_defs Let_def split: if_splits cycle.splits option.splits sum.splits prod.splits)

lemma step_emits:
  "step hs a s = Some s' \<Longrightarrow> emitted s' = emitted s \<or> (\<exists>e. emitted s' = emitted s @ [e])"
  by (cases a) (auto simp: coordinator_defs Let_def split: if_splits cycle.splits option.splits)

lemma only_setup_then_readies:
  "step hs a s = Some s' \<Longrightarrow> (\<not> ready s \<and> ready s') \<or> emitted s' = emitted s @ [SetupDone] \<Longrightarrow>
     (\<exists>n. a = SetupThen n \<and> n < length (cycles s) \<and> cycles s ! n = Pending [])"
  by (cases a) (auto simp: coordinator_defs Let_def split: if_splits cycle.splits option.splits sum.splits prod.splits)

text \<open>
  Claim C7. A call of \<^verbatim>\<open>setup\<close> begins by setting \<^verbatim>\<open>ready\<close> to false and emitting
  \<^verbatim>\<open>setup_start\<close>, and leaves its four loads pending. The loads may resolve in any order:
  for every ordering of the four, the run that resolves them in that order and then runs
  the reaction ends with \<^verbatim>\<open>ready\<close> true and \<^verbatim>\<open>setup_done\<close> emitted. Only the reaction of a cycle
  whose loads have all resolved sets \<^verbatim>\<open>ready\<close> to true or emits \<^verbatim>\<open>setup_done\<close>, and in every
  run from the constructed instance each of the four loads of a cycle has resolved before
  the cycle's reaction runs.
\<close>

theorem setup_fan_out_fan_in:
  "ready (setup_call hs s) = False
   \<and> emitted (setup_call hs s) = emitted s @ [SetupStart]
   \<and> cycles (setup_call True s) = cycles s @ [Pending all_tasks]
   \<and> (\<forall>ts. distinct ts \<and> set ts = set all_tasks \<longrightarrow>
         run True (CallSetup # map (\<lambda>t. Settle (length (cycles s)) t None) ts
                     @ [SetupThen (length (cycles s))]) s
           = Some (s\<lparr>ready := True,
                     cycles := cycles s @ [Done],
                     emitted := emitted s @ [SetupStart, SetupDone],
                     compile_chains := resolve_listeners (compile_chains s)\<rparr>))
   \<and> (\<forall>a s'. step hs a s = Some s'
          \<and> ((\<not> ready s \<and> ready s') \<or> emitted s' = emitted s @ [SetupDone]) \<longrightarrow>
          (\<exists>n. a = SetupThen n \<and> n < length (cycles s) \<and> cycles s ! n = Pending []))
   \<and> (\<forall>pre n post s'. run hs (pre @ SetupThen n # post) constructed = Some s' \<longrightarrow>
          (\<forall>t \<in> set all_tasks. Settle n t None \<in> set pre))"
proof (intro conjI allI impI ballI)
  show "ready (setup_call hs s) = False"
    by (simp add: setup_call_def emit_def)
  show "emitted (setup_call hs s) = emitted s @ [SetupStart]"
    by (simp add: setup_call_def emit_def)
  show "cycles (setup_call True s) = cycles s @ [Pending all_tasks]"
    by (simp add: setup_call_def emit_def)
next
  fix ts :: "task list"
  assume ts: "distinct ts \<and> set ts = set all_tasks"
  let ?n = "length (cycles s)"
  let ?s1 = "setup_call True s"
  have n: "?n < length (cycles ?s1)" "cycles ?s1 ! ?n = Pending all_tasks"
    by (simp_all add: setup_call_def emit_def)
  from ts have "filter (\<lambda>t. t \<notin> set ts) all_tasks = []"
    by (simp add: filter_empty_conv)
  with run_settles [OF n, of ts True] ts
  have settled: "run True (map (\<lambda>t. Settle ?n t None) ts) ?s1
                   = Some (?s1\<lparr>cycles := (cycles ?s1)[?n := Pending []]\<rparr>)"
    by simp
  show "run True (CallSetup # map (\<lambda>t. Settle ?n t None) ts @ [SetupThen ?n]) s
           = Some (s\<lparr>ready := True,
                     cycles := cycles s @ [Done],
                     emitted := emitted s @ [SetupStart, SetupDone],
                     compile_chains := resolve_listeners (compile_chains s)\<rparr>)"
    by (simp add: run_append settled) (simp add: setup_call_def setup_then_def emit_def)
next
  fix a s'
  assume "step hs a s = Some s'
          \<and> ((\<not> ready s \<and> ready s') \<or> emitted s' = emitted s @ [SetupDone])"
  then show "\<exists>n. a = SetupThen n \<and> n < length (cycles s) \<and> cycles s ! n = Pending []"
    using only_setup_then_readies [of hs a s s'] by blast
next
  fix pre n post s' t
  assume "run hs (pre @ SetupThen n # post) constructed = Some s'" "t \<in> set all_tasks"
  then show "Settle n t None \<in> set pre"
    by (rule setup_done_after_all_loads)
qed

text \<open>One ordering of the loads; before they have resolved the reaction cannot run.\<close>

theorem setup_fan_out_fan_in_witness:
  "distinct [LoadCollections, LoadData, EngineSetup, LoadLocales]
   \<and> set [LoadCollections, LoadData, EngineSetup, LoadLocales] = set all_tasks
   \<and> run True [CallSetup, Settle 0 LoadCollections None, Settle 0 LoadData None,
                Settle 0 EngineSetup None, Settle 0 LoadLocales None, SetupThen 0] constructed
       = Some \<lparr>ready = True, cycles = [Done], compile_chains = [],
               emitted = [SetupStart, SetupDone]\<rparr>
   \<and> step True (SetupThen 0) (setup_call True constructed) = None"
proof -
  have perm: "distinct [LoadCollections, LoadData, EngineSetup, LoadLocales]
              \<and> set [LoadCollections, LoadData, EngineSetup, LoadLocales] = set all_tasks"
    by (auto simp: all_tasks_def)
  note any_order = setup_fan_out_fan_in [of True constructed, THEN conjunct2, THEN conjunct2,
                     THEN conjunct2, THEN conjunct1, rule_format, OF perm]
  have "step True (SetupThen 0) (setup_call True constructed) = None"
    by (simp add: constructed_def all_tasks_def coordinator_defs)
  with perm any_order show ?thesis
    by (simp add: constructed_def resolve_listeners_def)
qed

text \<open>
  Claim C6 says that \<^verbatim>\<open>compile\<close> never starts rendering before the coordinator is ready.
  When \<^verbatim>\<open>compile\<close> is called on a ready instance, \<^verbatim>\<open>onReady\<close> resolves at once and the
  rendering reaction is queued; a call of \<^verbatim>\<open>setup\<close> made before that reaction runs sets
  \<^verbatim>\<open>ready\<close> to false, and the reaction then emits \<^verbatim>\<open>parsing\<close> and starts rendering while
  \<^verbatim>\<open>ready\<close> is false.
\<close>

theorem compile_renders_while_not_ready_counterexample:
  "run True [CallSetup, Settle 0 EngineSetup None, Settle 0 LoadData None,
             Settle 0 LoadLocales None, Settle 0 LoadCollections None, SetupThen 0,
             CallCompile ''dist'', CallSetup] constructed
     = Some \<lparr>ready = False, cycles = [Done, Pending all_tasks],
             compile_chains = [(WriteTo ''dist'', Scheduled)],
             emitted = [SetupStart, SetupDone, SetupStart]\<rparr>
   \<and> step True (StartRender 0)
        \<lparr>ready = False, cycles = [Done, Pending all_tasks],
         compile_chains = [(WriteTo ''dist'', Scheduled)],
         emitted = [SetupStart, SetupDone, SetupStart]\<rparr>
     = Some \<lparr>ready = False, cycles = [Done, Pending all_tasks],
             compile_chains = [(WriteTo ''dist'', Rendering)],
             emitted = [SetupStart, SetupDone, SetupStart, Parsing]\<rparr>"
  by (simp add: constructed_def all_tasks_def coordinator_defs)

text \<open>
  Claim C6, amended. \<^verbatim>\<open>compile\<close> and \<^verbatim>\<open>compileStream\<close> start rendering only once the promise
  of \<^verbatim>\<open>onReady\<close> has resolved. Called while \<^verbatim>\<open>ready\<close> is true, the chain is scheduled at once;
  called while it is false, the chain is suspended, and a suspended chain is released only
  by a reaction that emits \<^verbatim>\<open>setup_done\<close> and sets \<^verbatim>\<open>ready\<close> to true, the next such reaction
  releasing every suspended chain. \<^verbatim>\<open>ready\<close> then stays true until the next call of
  \<^verbatim>\<open>setup\<close>. In every run from the constructed instance \<^verbatim>\<open>setup_done\<close> has been emitted once
  for each completed cycle and not otherwise, and \<^verbatim>\<open>setup_start\<close> once for each cycle.
\<close>

theorem compile_renders_after_onReady_resolves:
  "(ready s \<longrightarrow> compile_chains (compile dest s) = compile_chains s @ [(WriteTo dest, Scheduled)]
                \<and> compile_chains (compileStream s) = compile_chains s @ [(PushToStream, Scheduled)])
   \<and> (\<not> ready s \<longrightarrow> compile_chains (compile dest s) = compile_chains s @ [(WriteTo dest, Suspended)]
                \<and> compile_chains (compileStream s) = compile_chains s @ [(PushToStream, Suspended)])
   \<and> (\<forall>c s'. step hs (StartRender c) s = Some s' \<longrightarrow>
          c < length (compile_chains s) \<and> snd (compile_chains s ! c) = Scheduled)
   \<and> (\<forall>a c s'. step hs a s = Some s' \<and> c < length (compile_chains s)
          \<and> snd (compile_chains s ! c) = Suspended \<and> snd (compile_chains s' ! c) \<noteq> Suspended \<longrightarrow>
          (\<exists>n. a = SetupThen n) \<and> snd (compile_chains s' ! c) = Scheduled \<and> ready s'
          \<and> emitted s' = emitted s @ [SetupDone])
   \<and> (\<forall>n c s'. step hs (SetupThen n) s = Some s' \<and> c < length (compile_chains s)
          \<and> snd (compile_chains s ! c) = Suspended \<longrightarrow>
          snd (compile_chains s' ! c) = Scheduled)
   \<and> (\<forall>as s'. ready s \<and> CallSetup \<notin> set as \<and> run hs as s = Some s' \<longrightarrow> ready s')
   \<and> (\<forall>as s'. run hs as constructed = Some s' \<longrightarrow>
          length (filter (\<lambda>e. e = SetupDone) (emitted s'))
            = length (filter (\<lambda>c. c = Done) (cycles s'))
          \<and> length (filter (\<lambda>c. c = Done) (cycles s')) \<le> length (cycles s')
          \<and> length (filter (\<lambda>e. e = SetupStart) (emitted s')) = length (cycles s'))"
proof (intro conjI allI impI)
  assume "ready s"
  then show "compile_chains (compile dest s) = compile_chains s @ [(WriteTo dest, Scheduled)]"
    and "compile_chains (compileStream s) = compile_chains s @ [(PushToStream, Scheduled)]"
    by (simp_all add: compile_def compileStream_def onReady_def)
next
  assume "\<not> ready s"
  then show "compile_chains (compile dest s) = compile_chains s @ [(WriteTo dest, Suspended)]"
    and "compile_chains (compileStream s) = compile_chains s @ [(PushToStream, Suspended)]"
    by (simp_all add: compile_def compileStream_def onReady_def)
next
  fix c s'
  assume "step hs (StartRender c) s = Some s'"
  then show "c < length (compile_chains s)" and "snd (compile_chains s ! c) = Scheduled"
    by (simp_all add: start_render_def split: if_splits)
next
  fix a c s'
  assume h: "step hs a s = Some s' \<and> c < length (compile_chains s)
          \<and> snd (compile_chains s ! c) = Suspended \<and> snd (compile_chains s' ! c) \<noteq> Suspended"
  then have "(\<exists>n. a = SetupThen n) \<and> snd (compile_chains s' ! c) = Scheduled \<and> ready s'
         \<and> emitted s' = emitted s @ [SetupDone]"
    using step_releases_suspended [of hs a s s' c] by blast
  then show "\<exists>n. a = SetupThen n" and "snd (compile_chains s' ! c) = Scheduled" and "ready s'"
    and "emitted s' = emitted s @ [SetupDone]"
    by simp_all
next
  fix n c s'
  assume "step hs (SetupThen n) s = Some s' \<and> c < length (compile_chains s)
          \<and> snd (compile_chains s ! c) = Suspended"
  then show "snd (compile_chains s' ! c) = Scheduled"
    using setup_then_releases_all [of n s s' c] by simp
next
  fix as s'
  assume "ready s \<and> CallSetup \<notin> set as \<and> run hs as s = Some s'"
  then show "ready s'"
    using run_ready_persists [of hs as s s'] by simp
next
  fix as s'
  assume r: "run hs as constructed = Some s'"
  from run_counts [OF r]
  show "length (filter (\<lambda>e. e = SetupDone) (emitted s'))
            = length (filter (\<lambda>c. c = Done) (cycles s'))"
    and "length (filter (\<lambda>e. e = SetupStart) (emitted s')) = length (cycles s')"
    by simp_all
  show "length (filter (\<lambda>c. c = Done) (cycles s')) \<le> length (cycles s')"
    by simp
qed

text \<open>
  A stream compile called before the first \<^verbatim>\<open>setup\<close> is suspended, cannot render while the
  loads are pending, is released by \<^verbatim>\<open>setup_done\<close> and renders; a later \<^verbatim>\<open>compile\<close> proceeds at
  once.
\<close>

theorem compile_renders_after_onReady_resolves_witness:
  "\<not> ready constructed
   \<and> compile_chains (compileStream constructed) = [(PushToStream, Suspended)]
   \<and> run True [CallCompileStream, CallSetup, Settle 0 EngineSetup None, Settle 0 LoadData None,
                Settle 0 LoadLocales None, Settle 0 LoadCollections None] constructed
       = Some \<lparr>ready = False, cycles = [Pending []],
               compile_chains = [(PushToStream, Suspended)], emitted = [SetupStart]\<rparr>
   \<and> step True (StartRender 0)
        \<lparr>ready = False, cycles = [Pending []],
         compile_chains = [(PushToStream, Suspended)], emitted = [SetupStart]\<rparr> = None
   \<and> step True (SetupThen 0)
        \<lparr>ready = False, cycles = [Pending []],
         compile_chains = [(PushToStream, Suspended)], emitted = [SetupStart]\<rparr>
       = Some \<lparr>ready = True, cycles = [Done],
               compile_chains = [(PushToStream, Scheduled)], emitted = [SetupStart, SetupDone]\<rparr>
   \<and> run True [StartRender 0, CallCompile ''dist'', StartRender 1]
        \<lparr>ready = True, cycles = [Done],
         compile_chains = [(PushToStream, Scheduled)], emitted = [SetupStart, SetupDone]\<rparr>
       = Some \<lparr>ready = True, cycles = [Done],
               compile_chains = [(PushToStream, Rendering), (WriteTo ''dist'', Rendering)],
               emitted = [SetupStart, SetupDone, Parsing, Parsing]\<rparr>"
proof -
  let ?waiting = "\<lparr>ready = False, cycles = [Pending []],
                   compile_chains = [(PushToStream, Suspended)], emitted = [SetupStart]\<rparr>"
  let ?released = "\<lparr>ready = True, cycles = [Done],
                    compile_chains = [(PushToStream, Scheduled)], emitted = [SetupStart, SetupDone]\<rparr>"
  have not_ready: "\<not> ready constructed"
    by (simp add: constructed_def)
  have suspended: "compile_chains (compileStream constructed) = [(PushToStream, Suspended)]"
    using compile_renders_after_onReady_resolves [of constructed "''dist''" True] not_ready
    by (simp add: constructed_def)
  have e1: "run True [CallCompileStream, CallSetup, Settle 0 EngineSetup None, Settle 0 LoadData None,
                Settle 0 LoadLocales None, Settle 0 LoadCollections None] constructed = Some ?waiting"
    by (simp add: constructed_def all_tasks_def coordinator_defs)
  have e2: "step True (StartRender 0) ?waiting = None"
    by (simp add: start_render_def)
  have e3: "step True (SetupThen 0) ?waiting = Some ?released"
    by (simp add: coordinator_defs)
  have e4: "run True [StartRender 0, CallCompile ''dist'', StartRender 1] ?released
       = Some \<lparr>ready = True, cycles = [Done],
               compile_chains = [(PushToStream, Rendering), (WriteTo ''dist'', Rendering)],
               emitted = [SetupStart, SetupDone, Parsing, Parsing]\<rparr>"
    by (simp add: coordinator_defs)
  from not_ready suspended e1 e2 e3 e4 show ?thesis
    by (intro conjI)
qed

text \<open>
  Claim C8 says that a failing load propagates through the \<^verbatim>\<open>error\<close> event and rejects the
  compile chain. After a data file fails to load, the promise of \<^verbatim>\<open>setup\<close> is rejected, but
  no \<^verbatim>\<open>error\<close> event has been emitted and the waiting compile chain is still suspended:
  \<^verbatim>\<open>setup\<close> has no rejection handler, and \<^verbatim>\<open>onReady\<close> only listens for \<^verbatim>\<open>setup_done\<close>.
\<close>

theorem setup_failure_emits_no_error_counterexample:
  "run True [CallSetup, CallCompile ''dist'', Settle 0 EngineSetup None,
             Settle 0 LoadData (Some (JStr ''malformed data file''))] constructed
     = Some \<lparr>ready = False,
             cycles = [Rejected (JStr ''malformed data file'') [LoadLocales, LoadCollections]],
             compile_chains = [(WriteTo ''dist'', Suspended)],
             emitted = [SetupStart]\<rparr>"
  by (simp add: constructed_def all_tasks_def coordinator_defs)

text \<open>
  Claim C8, amended. A failing load rejects the promise of that \<^verbatim>\<open>setup\<close> call and changes
  nothing else: no event is emitted and no compile chain is touched. The cycle stays
  rejected, so it never sets \<^verbatim>\<open>ready\<close> nor emits \<^verbatim>\<open>setup_done\<close>. A compile chain suspended in
  \<^verbatim>\<open>onReady\<close> renders no page: it stays suspended as long as no setup cycle completes. The
  coordinator emits \<^verbatim>\<open>error\<close> only at the end of a chain that was rendering.
\<close>

theorem setup_failure_rejects_setup_and_suspends_compile:
  "(\<forall>n t err s'. step hs (Settle n t (Some err)) s = Some s' \<longrightarrow>
       n < length (cycles s')
       \<and> rejection (cycles s' ! n) = Some (case rejection (cycles s ! n) of
                                              None \<Rightarrow> err | Some first \<Rightarrow> first)
       \<and> emitted s' = emitted s \<and> compile_chains s' = compile_chains s \<and> ready s' = ready s)
   \<and> (\<forall>n err. n < length (cycles s) \<and> rejection (cycles s ! n) = Some err \<longrightarrow>
         step hs (SetupThen n) s = None
         \<and> (\<forall>as s'. run hs as s = Some s' \<longrightarrow> rejection (cycles s' ! n) = Some err))
   \<and> (\<forall>c as s'. c < length (compile_chains s) \<and> snd (compile_chains s ! c) = Suspended
          \<and> (\<forall>n. SetupThen n \<notin> set as) \<and> run hs as s = Some s' \<longrightarrow>
          snd (compile_chains s' ! c) = Suspended)
   \<and> (\<forall>a err s'. step hs a s = Some s' \<and> emitted s' = emitted s @ [Error err] \<longrightarrow>
          (\<exists>c. a = Finish c (Inl err) \<and> c < length (compile_chains s)
               \<and> snd (compile_chains s ! c) = Rendering))"
proof (intro conjI allI impI)
  fix n t err s'
  assume "step hs (Settle n t (Some err)) s = Some s'"
  then show "n < length (cycles s')"
    and "rejection (cycles s' ! n) = Some (case rejection (cycles s ! n) of
                                           None \<Rightarrow> err | Some first \<Rightarrow> first)"
    and "emitted s' = emitted s" and "compile_chains s' = compile_chains s" and "ready s' = ready s"
    by (auto simp: settle_def split: if_splits cycle.splits)
next
  fix n err
  assume "n < length (cycles s) \<and> rejection (cycles s ! n) = Some err"
  then show "step hs (SetupThen n) s = None"
    by (auto simp: setup_then_def)
next
  fix n err as s'
  assume "n < length (cycles s) \<and> rejection (cycles s ! n) = Some err" "run hs as s = Some s'"
  then show "rejection (cycles s' ! n) = Some err"
    using rejected_persists_run [of hs as s s' n err] by simp
next
  fix c as s'
  assume "c < length (compile_chains s) \<and> snd (compile_chains s ! c) = Suspended
          \<and> (\<forall>n. SetupThen n \<notin> set as) \<and> run hs as s = Some s'"
  then show "snd (compile_chains s' ! c) = Suspended"
    using suspended_persists_run [of hs as s s' c] by simp
next
  fix a err s'
  assume "step hs a s = Some s' \<and> emitted s' = emitted s @ [Error err]"
  then show "\<exists>c. a = Finish c (Inl err) \<and> c < length (compile_chains s)
               \<and> snd (compile_chains s ! c) = Rendering"
    using error_only_from_render [of hs a s s' err] by simp
qed

text \<open>
  A malformed data file rejects the cycle; its reaction cannot run, whatever the loads
  that still run do; a new compile call is suspended as well; a rendering failure is what
  emits \<^verbatim>\<open>error\<close>.
\<close>

theorem setup_failure_rejects_setup_and_suspends_compile_witness:
  "step True (Settle 0 LoadData (Some (JStr ''malformed data file'')))
     \<lparr>ready = False, cycles = [Pending [LoadData, LoadLocales, LoadCollections]],
      compile_chains = [(WriteTo ''dist'', Suspended)], emitted = [SetupStart]\<rparr>
     = Some \<lparr>ready = False,
             cycles = [Rejected (JStr ''malformed data file'') [LoadLocales, LoadCollections]],
             compile_chains = [(WriteTo ''dist'', Suspended)], emitted = [SetupStart]\<rparr>
   \<and> step True (SetupThen 0)
        \<lparr>ready = False,
         cycles = [Rejected (JStr ''malformed data file'') [LoadLocales, LoadCollections]],
         compile_chains = [(WriteTo ''dist'', Suspended)], emitted = [SetupStart]\<rparr> = None
   \<and> run True [Settle 0 LoadLocales None, Settle 0 LoadCollections (Some (JStr ''no template'')),
                CallCompileStream]
        \<lparr>ready = False,
         cycles = [Rejected (JStr ''malformed data file'') [LoadLocales, LoadCollections]],
         compile_chains = [(WriteTo ''dist'', Suspended)], emitted = [SetupStart]\<rparr>
     = Some \<lparr>ready = False, cycles = [Rejected (JStr ''malformed data file'') []],
         compile_chains = [(WriteTo ''dist'', Suspended), (PushToStream, Suspended)],
         emitted = [SetupStart]\<rparr>
   \<and> step True (StartRender 0)
        \<lparr>ready = False, cycles = [Rejected (JStr ''malformed data file'') []],
         compile_chains = [(WriteTo ''dist'', Suspended), (PushToStream, Suspended)],
         emitted = [SetupStart]\<rparr> = None
   \<and> step True (Finish 0 (Inl (JStr ''template error'')))
        \<lparr>ready = True, cycles = [Done],
         compile_chains = [(WriteTo ''dist'', Rendering)], emitted = [SetupStart, SetupDone, Parsing]\<rparr>
     = Some \<lparr>ready = True, cycles = [Done],
             compile_chains = [(WriteTo ''dist'', Settled)],
             emitted = [SetupStart, SetupDone, Parsing, Error (JStr ''template error'')]\<rparr>"
proof -
  let ?loading = "\<lparr>ready = False, cycles = [Pending [LoadData, LoadLocales, LoadCollections]],
      compile_chains = [(WriteTo ''dist'', Suspended)], emitted = [SetupStart]\<rparr>"
  let ?failed = "\<lparr>ready = False,
             cycles = [Rejected (JStr ''malformed data file'') [LoadLocales, LoadCollections]],
             compile_chains = [(WriteTo ''dist'', Suspended)], emitted = [SetupStart]\<rparr>"
  let ?later = "\<lparr>ready = False, cycles = [Rejected (JStr ''malformed data file'') []],
         compile_chains = [(WriteTo ''dist'', Suspended), (PushToStream, Suspended)],
         emitted = [SetupStart]\<rparr>"
  have e1: "step True (Settle 0 LoadData (Some (JStr ''malformed data file''))) ?loading = Some ?failed"
    by (simp add: settle_def)
  have rejected: "0 < length (cycles ?failed)
                  \<and> rejection (cycles ?failed ! 0) = Some (JStr ''malformed data file'')"
    by simp
  note inst = setup_failure_rejects_setup_and_suspends_compile [of True ?failed]
  from inst rejected have e2: "step True (SetupThen 0) ?failed = None"
    by blast
  have e3: "run True [Settle 0 LoadLocales None, Settle 0 LoadCollections (Some (JStr ''no template'')),
                      CallCompileStream] ?failed = Some ?later"
    by (simp add: coordinator_defs)
  have e4: "step True (StartRender 0) ?later = None"
    by (simp add: start_render_def)
  have e5: "step True (Finish 0 (Inl (JStr ''template error'')))
        \<lparr>ready = True, cycles = [Done],
         compile_chains = [(WriteTo ''dist'', Rendering)], emitted = [SetupStart, SetupDone, Parsing]\<rparr>
     = Some \<lparr>ready = True, cycles = [Done],
             compile_chains = [(WriteTo ''dist'', Settled)],
             emitted = [SetupStart, SetupDone, Parsing, Error (JStr ''template error'')]\<rparr>"
    by (simp add: coordinator_defs)
  from e1 e2 e3 e4 e5 show ?thesis
    by (intro conjI)
qed

section \<open>What setup replaces and what a build pass leaves alone\<close>

text \<open>
  \<^verbatim>\<open>getPageData\<close> on the store writes new objects only, and the object it returns holds what
  \<open>getPageData\<close> computes on values.
\<close>

lemma heap_getPageData_frame:
  assumes "refs_in h this file attributes"
    and "heap_getPageData d this file attributes error h = (r, h')"
  shows "(\<forall>a < length h. h' ! a = h ! a) \<and> length h \<le> r \<and> r < length h'
         \<and> h' ! r = getPageData d (this_in h this) (file_in h file) (h ! attributes) error"
  using assms
  by (auto simp: heap_getPageData_def refs_in_def alloc_def heap_assign_def heap_deepmerge_def
                 Let_def nth_append nth_list_update getPageData_def mergedData_def spreadData_def
                 this_in_def file_in_def
           split: option.splits prod.splits if_splits)

lemma heap_setup_reset_frame:
  assumes "heap_setup_reset this h = (this', h')"
  shows "(\<forall>a < length h. h' ! a = h ! a)
         \<and> length h \<le> data_ref this' \<and> data_ref this' < length h' \<and> h' ! data_ref this' = []
         \<and> length h \<le> collections_ref this' \<and> collections_ref this' < length h'
         \<and> h' ! collections_ref this' = []
         \<and> length h \<le> collectionPages_ref this' \<and> collectionPages_ref this' < length h'
         \<and> h' ! collectionPages_ref this' = []
         \<and> localeData_ref this' = localeData_ref this"
  using assms
  by (auto simp: heap_setup_reset_def alloc_def Let_def nth_append)

lemma heap_load_frame:
  assumes "heap_load d fs ld (this, h) = Inr (this', h')"
  shows "length h' = length h \<and> data_ref this' = data_ref this
         \<and> collections_ref this' = collections_ref this
         \<and> (\<forall>a. a \<noteq> data_ref this \<and> a \<noteq> collections_ref this \<longrightarrow> h' ! a = h ! a)"
  using assms
  by (cases ld) (auto split: sum.splits)

lemma heap_loads_frame:
  assumes "heap_loads d fs lds (this, h) = Inr (this', h')"
  shows "length h' = length h \<and> data_ref this' = data_ref this
         \<and> collections_ref this' = collections_ref this
         \<and> (\<forall>a. a \<noteq> data_ref this \<and> a \<noteq> collections_ref this \<longrightarrow> h' ! a = h ! a)"
  using assms
proof (induction lds arbitrary: this h)
  case Nil
  then show ?case by simp
next
  case (Cons ld lds)
  then obtain this1 h1 where s1: "heap_load d fs ld (this, h) = Inr (this1, h1)"
    and rest: "heap_loads d fs lds (this1, h1) = Inr (this', h')"
    by (auto split: sum.splits)
  from heap_load_frame [OF s1] Cons.IH [OF rest] show ?case by simp
qed

lemma heap_getPageData_grows:
  assumes "heap_getPageData d this file attributes error h = (r, h')"
  shows "length h \<le> length h'"
  using assms
  by (auto simp: heap_getPageData_def alloc_def heap_assign_def heap_deepmerge_def Let_def
           split: option.splits prod.splits)

lemma refs_in_mono: "refs_in h this file attributes \<Longrightarrow> length h \<le> length h' \<Longrightarrow> refs_in h' this file attributes"
  by (auto simp: refs_in_def split: option.splits)

lemma render_page_frame:
  assumes "page_refs_in h this pg" "render_page d er this pg h = (out, h')"
  shows "(\<forall>a < length h. h' ! a = h ! a) \<and> length h \<le> length h'"
proof -
  obtain r1 h1 where g1: "heap_getPageData d this (page_file pg) (page_attributes pg) JUndefined h = (r1, h1)"
    by (cases "heap_getPageData d this (page_file pg) (page_attributes pg) JUndefined h")
  from assms(1) have in0: "refs_in h this (page_file pg) (page_attributes pg)"
    by (simp add: page_refs_in_def)
  note f1 = heap_getPageData_frame [OF in0 g1] heap_getPageData_grows [OF g1]
  show ?thesis
  proof (cases "er (page_template pg) (h1 ! r1)")
    case (Inr rendered)
    with assms(2) g1 have "h' = h1" by (simp add: render_page_def)
    with f1 show ?thesis by simp
  next
    case (Inl err)
    obtain r2 h2 where g2: "heap_getPageData d this (page_file pg) (page_attributes pg) err h1 = (r2, h2)"
      by (cases "heap_getPageData d this (page_file pg) (page_attributes pg) err h1")
    from Inl assms(2) g1 g2 have "h' = h2" by (simp add: render_page_def)
    moreover note heap_getPageData_frame [OF refs_in_mono [OF in0 f1(2)] g2] heap_getPageData_grows [OF g2]
    ultimately show ?thesis using f1 by auto
  qed
qed

lemma render_frame:
  assumes "\<forall>pg \<in> set pgs. page_refs_in h this pg" "render d er this pgs h = (outs, h')"
  shows "(\<forall>a < length h. h' ! a = h ! a) \<and> length h \<le> length h'"
  using assms
proof (induction pgs arbitrary: h outs h')
  case Nil
  then show ?case by simp
next
  case (Cons pg pgs)
  obtain out h1 where p: "render_page d er this pg h = (out, h1)"
    by (cases "render_page d er this pg h")
  obtain outs1 h2 where r: "render d er this pgs h1 = (outs1, h2)"
    by (cases "render d er this pgs h1")
  from Cons.prems p r have h': "h' = h2" by simp
  from Cons.prems have "page_refs_in h this pg" by simp
  note f1 = render_page_frame [OF this p]
  have "\<forall>pg \<in> set pgs. page_refs_in h1 this pg"
    using Cons.prems(1) f1 by (auto simp: page_refs_in_def intro: refs_in_mono)
  from Cons.IH [OF this r] f1 h' show ?case by auto
qed

lemma this_in_frame:
  "engine_refs_in h this \<Longrightarrow> \<forall>a < length h. h' ! a = h ! a \<Longrightarrow> this_in h' this = this_in h this"
  by (simp add: engine_refs_in_def this_in_def)

lemma heap_loads_content:
  assumes "heap_loads d fs lds (t1, h1) = Inr (t1', h1')"
    and "heap_loads d fs lds (t2, h2) = Inr (t2', h2')"
    and "data_ref t1 \<noteq> collections_ref t1" "data_ref t2 \<noteq> collections_ref t2"
    and "data_ref t1 < length h1" "collections_ref t1 < length h1"
    and "data_ref t2 < length h2" "collections_ref t2 < length h2"
    and "h1 ! data_ref t1 = h2 ! data_ref t2"
    and "h1 ! collections_ref t1 = h2 ! collections_ref t2"
  shows "h1' ! data_ref t1' = h2' ! data_ref t2'
         \<and> h1' ! collections_ref t1' = h2' ! collections_ref t2'"
  using assms
proof (induction lds arbitrary: t1 h1 t2 h2)
  case Nil
  then show ?case by simp
next
  case (Cons ld lds)
  from Cons.prems(1) obtain u1 g1 where s1: "heap_load d fs ld (t1, h1) = Inr (u1, g1)"
    and r1: "heap_loads d fs lds (u1, g1) = Inr (t1', h1')"
    by (auto split: sum.splits)
  from Cons.prems(2) obtain u2 g2 where s2: "heap_load d fs ld (t2, h2) = Inr (u2, g2)"
    and r2: "heap_loads d fs lds (u2, g2) = Inr (t2', h2')"
    by (auto split: sum.splits)
  note f1 = heap_load_frame [OF s1] and f2 = heap_load_frame [OF s2]
  have same: "g1 ! data_ref u1 = g2 ! data_ref u2 \<and> g1 ! collections_ref u1 = g2 ! collections_ref u2"
    using s1 s2 Cons.prems(3-10)
    by (cases ld) (auto split: sum.splits)
  show ?case
    using Cons.IH [OF r1 r2] f1 f2 same Cons.prems(3-8) by simp
qed

text \<open>
  Claim C10. \<^verbatim>\<open>setup\<close> replaces the global data and the collections by new, empty objects
  and leaves every object that existed before the call as it was, also while its loads
  store their results; what the two mappings hold after the loads does not depend on the
  instance and the store before the call. The locale table is replaced by the loaded
  object, no object being written. Assembling the data of a page, and rendering any list of
  pages, write new objects only: every object that existed before is unchanged, so the
  instance stands for the same global data, locale table and collections afterwards.
\<close>

theorem global_data_replaced_by_setup_and_untouched_by_build:
  "(\<forall>this1 h1. heap_setup_reset this h = (this1, h1) \<longrightarrow>
       (\<forall>a < length h. h1 ! a = h ! a)
     \<and> length h \<le> data_ref this1 \<and> h1 ! data_ref this1 = []
     \<and> length h \<le> collections_ref this1 \<and> h1 ! collections_ref this1 = []
     \<and> (\<forall>lds this2 h2. heap_loads d fs lds (this1, h1) = Inr (this2, h2) \<longrightarrow>
           (\<forall>a < length h. h2 ! a = h ! a)
         \<and> (\<forall>that g that1 g1 that2 g2.
               heap_setup_reset that g = (that1, g1)
               \<and> heap_loads d fs lds (that1, g1) = Inr (that2, g2) \<longrightarrow>
               h2 ! data_ref this2 = g2 ! data_ref that2
               \<and> h2 ! collections_ref this2 = g2 ! collections_ref that2)))
   \<and> (\<forall>res this1 h1. heap_load d fs (Locales res) (this, h) = Inr (this1, h1) \<longrightarrow>
         h1 = h \<and> localeData_ref this1 = res)
   \<and> (\<forall>file attributes error r h1.
         refs_in h this file attributes
         \<and> heap_getPageData d this file attributes error h = (r, h1) \<longrightarrow>
         (\<forall>a < length h. h1 ! a = h ! a) \<and> length h \<le> r
         \<and> (engine_refs_in h this \<longrightarrow> this_in h1 this = this_in h this))
   \<and> (\<forall>pgs outs h1.
         (\<forall>pg \<in> set pgs. page_refs_in h this pg) \<and> render d er this pgs h = (outs, h1) \<longrightarrow>
         (\<forall>a < length h. h1 ! a = h ! a)
         \<and> (engine_refs_in h this \<longrightarrow> this_in h1 this = this_in h this))"
proof -
  have reset_frame: "\<forall>a < length h. h1 ! a = h ! a" "length h \<le> data_ref this1"
    "h1 ! data_ref this1 = []" "length h \<le> collections_ref this1" "h1 ! collections_ref this1 = []"
    if "heap_setup_reset this h = (this1, h1)" for this1 h1
    using heap_setup_reset_frame [OF that] by simp_all
  have loads_frame: "\<forall>a < length h. h2 ! a = h ! a"
    if "heap_setup_reset this h = (this1, h1)" "heap_loads d fs lds (this1, h1) = Inr (this2, h2)"
    for this1 h1 lds this2 h2
    using heap_loads_frame [OF that(2)] heap_setup_reset_frame [OF that(1)] by auto
  have content: "h2 ! data_ref this2 = g2 ! data_ref that2
                 \<and> h2 ! collections_ref this2 = g2 ! collections_ref that2"
    if reset: "heap_setup_reset this h = (this1, h1)"
      and loads: "heap_loads d fs lds (this1, h1) = Inr (this2, h2)"
      and reset': "heap_setup_reset that g = (that1, g1)"
      and loads': "heap_loads d fs lds (that1, g1) = Inr (that2, g2)"
    for this1 h1 lds this2 h2 that g that1 g1 that2 g2
  proof -
    note fr = heap_setup_reset_frame [OF reset] and fr' = heap_setup_reset_frame [OF reset']
    have ne: "data_ref this1 \<noteq> collections_ref this1" "data_ref that1 \<noteq> collections_ref that1"
      using reset reset' by (auto simp: heap_setup_reset_def alloc_def Let_def)
    from heap_loads_content [OF loads loads' ne] fr fr' show ?thesis by simp
  qed
  have locale_table: "h1 = h \<and> localeData_ref this1 = res"
    if "heap_load d fs (Locales res) (this, h) = Inr (this1, h1)" for res this1 h1
    using that by auto
  have assembling: "(\<forall>a < length h. h1 ! a = h ! a) \<and> length h \<le> r
         \<and> (engine_refs_in h this \<longrightarrow> this_in h1 this = this_in h this)"
    if "refs_in h this f attributes" "heap_getPageData d this f attributes error h = (r, h1)"
    for f attributes error r h1
    using heap_getPageData_frame [OF that] this_in_frame [of h this h1] by simp
  have rendering: "(\<forall>a < length h. h1 ! a = h ! a)
         \<and> (engine_refs_in h this \<longrightarrow> this_in h1 this = this_in h this)"
    if "\<forall>pg \<in> set pgs. page_refs_in h this pg" "render d er this pgs h = (outs, h1)"
    for pgs outs h1
    using render_frame [OF that] this_in_frame [of h this h1] by simp
  show ?thesis
  proof (intro conjI)
    show "\<forall>this1 h1. heap_setup_reset this h = (this1, h1) \<longrightarrow>
       (\<forall>a < length h. h1 ! a = h ! a)
     \<and> length h \<le> data_ref this1 \<and> h1 ! data_ref this1 = []
     \<and> length h \<le> collections_ref this1 \<and> h1 ! collections_ref this1 = []
     \<and> (\<forall>lds this2 h2. heap_loads d fs lds (this1, h1) = Inr (this2, h2) \<longrightarrow>
           (\<forall>a < length h. h2 ! a = h ! a)
         \<and> (\<forall>that g that1 g1 that2 g2.
               heap_setup_reset that g = (that1, g1)
               \<and> heap_loads d fs lds (that1, g1) = Inr (that2, g2) \<longrightarrow>
               h2 ! data_ref this2 = g2 ! data_ref that2
               \<and> h2 ! collections_ref this2 = g2 ! collections_ref that2))"
    proof (intro allI impI)
      fix this1 h1
      assume r: "heap_setup_reset this h = (this1, h1)"
      have after_loads: "\<forall>lds this2 h2. heap_loads d fs lds (this1, h1) = Inr (this2, h2) \<longrightarrow>
           (\<forall>a < length h. h2 ! a = h ! a)
         \<and> (\<forall>that g that1 g1 that2 g2.
               heap_setup_reset that g = (that1, g1)
               \<and> heap_loads d fs lds (that1, g1) = Inr (that2, g2) \<longrightarrow>
               h2 ! data_ref this2 = g2 ! data_ref that2
               \<and> h2 ! collections_ref this2 = g2 ! collections_ref that2)"
      proof (intro allI impI)
        fix lds this2 h2
        assume l: "heap_loads d fs lds (this1, h1) = Inr (this2, h2)"
        have "\<forall>that g that1 g1 that2 g2.
               heap_setup_reset that g = (that1, g1)
               \<and> heap_loads d fs lds (that1, g1) = Inr (that2, g2) \<longrightarrow>
               h2 ! data_ref this2 = g2 ! data_ref that2
               \<and> h2 ! collections_ref this2 = g2 ! collections_ref that2"
          using content [OF r l] by blast
        with loads_frame [OF r l]
        show "(\<forall>a < length h. h2 ! a = h ! a)
         \<and> (\<forall>that g that1 g1 that2 g2.
               heap_setup_reset that g = (that1, g1)
               \<and> heap_loads d fs lds (that1, g1) = Inr (that2, g2) \<longrightarrow>
               h2 ! data_ref this2 = g2 ! data_ref that2
               \<and> h2 ! collections_ref this2 = g2 ! collections_ref that2)"
          by (rule conjI)
      qed
      from reset_frame [OF r] after_loads
      show "(\<forall>a < length h. h1 ! a = h ! a)
     \<and> length h \<le> data_ref this1 \<and> h1 ! data_ref this1 = []
     \<and> length h \<le> collections_ref this1 \<and> h1 ! collections_ref this1 = []
     \<and> (\<forall>lds this2 h2. heap_loads d fs lds (this1, h1) = Inr (this2, h2) \<longrightarrow>
           (\<forall>a < length h. h2 ! a = h ! a)
         \<and> (\<forall>that g that1 g1 that2 g2.
               heap_setup_reset that g = (that1, g1)
               \<and> heap_loads d fs lds (that1, g1) = Inr (that2, g2) \<longrightarrow>
               h2 ! data_ref this2 = g2 ! data_ref that2
               \<and> h2 ! collections_ref this2 = g2 ! collections_ref that2))"
        by (intro conjI)
    qed
    show "\<forall>res this1 h1. heap_load d fs (Locales res) (this, h) = Inr (this1, h1) \<longrightarrow>
         h1 = h \<and> localeData_ref this1 = res"
      using locale_table by blast
    show "\<forall>file attributes error r h1.
         refs_in h this file attributes
         \<and> heap_getPageData d this file attributes error h = (r, h1) \<longrightarrow>
         (\<forall>a < length h. h1 ! a = h ! a) \<and> length h \<le> r
         \<and> (engine_refs_in h this \<longrightarrow> this_in h1 this = this_in h this)"
      using assembling by blast
    show "\<forall>pgs outs h1.
         (\<forall>pg \<in> set pgs. page_refs_in h this pg) \<and> render d er this pgs h = (outs, h1) \<longrightarrow>
         (\<forall>a < length h. h1 ! a = h ! a)
         \<and> (engine_refs_in h this \<longrightarrow> this_in h1 this = this_in h this)"
      using rendering by blast
  qed
qed

lemmas heap_eval = example_heap_def example_refs_def example_file_ref_def heap_getPageData_def
  heap_setup_reset_def alloc_def heap_assign_def heap_deepmerge_def this_in_def file_in_def
  refs_in_def engine_refs_in_def

text \<open>
  A store with the global data, the locale table, the collections and a front matter:
  assembling a page leaves the five objects as they were and returns a new one; a
  \<^verbatim>\<open>setup\<close> appends three empty objects, and a loaded data file is stored in the new one.
\<close>

theorem global_data_replaced_by_setup_and_untouched_by_build_witness:
  "refs_in example_heap example_refs example_file_ref 4
   \<and> engine_refs_in example_heap example_refs
   \<and> fst (heap_getPageData example_deps example_refs example_file_ref 4 JUndefined example_heap) = 8
   \<and> take 5 (snd (heap_getPageData example_deps example_refs example_file_ref 4 JUndefined
                     example_heap)) = example_heap
   \<and> map_of (snd (heap_getPageData example_deps example_refs example_file_ref 4 JUndefined
                     example_heap) ! 8) ''site''
       = Some (JObj [(''title'', JStr ''X''), (''author'', JStr ''Y'')])
   \<and> heap_setup_reset example_refs example_heap
       = (example_refs\<lparr>data_ref := 5, collections_ref := 6, collectionPages_ref := 7\<rparr>,
          example_heap @ [ [], [], []])
   \<and> heap_loads example_deps example_loaders
         [DataFile ''site.yml'' (JObj [(''title'', JStr ''Z'')])]
         (example_refs\<lparr>data_ref := 5, collections_ref := 6, collectionPages_ref := 7\<rparr>,
          example_heap @ [ [], [], []])
       = Inr (example_refs\<lparr>data_ref := 5, collections_ref := 6, collectionPages_ref := 7\<rparr>,
              example_heap @ [ [(''site'', JObj [(''title'', JStr ''Z'')])], [], []])
   \<and> heap_load example_deps example_loaders (Locales 1) (example_refs, example_heap)
       = Inr (example_refs, example_heap)
   \<and> page_refs_in example_heap example_refs example_page
   \<and> fst (render example_deps example_engine_render example_refs [example_page] example_heap)
       = [Inr ''Hello page'']
   \<and> take 5 (snd (render example_deps example_engine_render example_refs [example_page]
                     example_heap)) = example_heap"
proof -
  obtain r h1 where run: "heap_getPageData example_deps example_refs example_file_ref 4 JUndefined
                            example_heap = (r, h1)"
    by (cases "heap_getPageData example_deps example_refs example_file_ref 4 JUndefined example_heap")
  have refs: "refs_in example_heap example_refs example_file_ref 4"
    by (simp add: heap_eval)
  have engine_refs: "engine_refs_in example_heap example_refs"
    by (simp add: heap_eval)
  from global_data_replaced_by_setup_and_untouched_by_build
         [of example_refs example_heap example_deps example_loaders example_engine_render]
       refs run
  have frame: "\<forall>a < length example_heap. h1 ! a = example_heap ! a"
    by blast
  have len: "length example_heap = 5"
    by (simp add: example_heap_def)
  have eval: "heap_getPageData example_deps example_refs example_file_ref 4 JUndefined example_heap
        = (8, example_heap @
              [ [(''page'', JStr ''index''), (''layout'', JStr ''default''), (''root'', JStr []),
                (''locale'', JUndefined), (''_paniniError'', JUndefined)],
               [(''site'', JObj [(''title'', JStr ''X'')]), (''name'', JStr ''global'')],
               [],
               [(''site'', JObj [(''title'', JStr ''X''), (''author'', JStr ''Y'')]),
                (''name'', JStr ''page''), (''page'', JStr ''index''),
                (''layout'', JStr ''default''), (''root'', JStr []),
                (''locale'', JUndefined), (''_paniniError'', JUndefined),
                (''repeat'', JFn RepeatFn), (''currentPage'', JFn (CurrentPageFn ''index''))],
               [(''repeat'', JFn RepeatFn), (''currentPage'', JFn (CurrentPageFn ''index''))]])"
    by (simp add: heap_eval example_defs eval_defs)
  have prefix: "take 5 h1 = example_heap"
    using frame len run eval by (simp add: example_heap_def)
  have reset: "heap_setup_reset example_refs example_heap
       = (example_refs\<lparr>data_ref := 5, collections_ref := 6, collectionPages_ref := 7\<rparr>,
          example_heap @ [ [], [], []])"
    by (simp add: heap_eval)
  have loads: "heap_loads example_deps example_loaders
         [DataFile ''site.yml'' (JObj [(''title'', JStr ''Z'')])]
         (example_refs\<lparr>data_ref := 5, collections_ref := 6, collectionPages_ref := 7\<rparr>,
          example_heap @ [ [], [], []])
       = Inr (example_refs\<lparr>data_ref := 5, collections_ref := 6, collectionPages_ref := 7\<rparr>,
              example_heap @ [ [(''site'', JObj [(''title'', JStr ''Z'')])], [], []])"
    by (simp add: heap_eval example_defs nth_append)
  have locales: "heap_load example_deps example_loaders (Locales 1) (example_refs, example_heap)
       = Inr (example_refs, example_heap)"
    by (simp add: example_heap_def example_refs_def keys_def)
  have page_refs: "page_refs_in example_heap example_refs example_page"
    by (simp add: page_refs_in_def example_page_def refs)
  have rendered: "render example_deps example_engine_render example_refs [example_page] example_heap
        = ([Inr ''Hello page''], snd (heap_getPageData example_deps example_refs example_file_ref 4
                                        JUndefined example_heap))"
    by (simp add: render_page_def example_page_def eval example_engine_render_def)
       (simp add: example_heap_def)
  from refs engine_refs prefix reset loads run eval locales page_refs rendered show ?thesis
    by (simp add: example_heap_def)
qed

end
